theory Spec2Isabelle
  imports Complex_Main
begin

section \<open>Strings, arrays and numbers of the source language\<close>

text \<open>
  A string of the source is a sequence of UTF-16 code units: \<open>length\<close> counts code units,
  \<open>charCodeAt\<close> reads one, \<open>split('')\<close> yields one string per code unit. A string is modelled
  as the list of its code units, each a natural number (below 65536 for a real string; no
  theorem below needs the bound).
\<close>

type_synonym jsstring = "nat list"

text \<open>A string literal of the source, written with ASCII characters.\<close>

definition js :: "string \<Rightarrow> jsstring" where
  "js s = map of_char s"

text \<open>
  \<open>String.prototype.trim\<close> removes white space and line terminators at both ends:
  TAB, LF, VT, FF, CR, SPACE, NBSP, the Unicode space separators, LS, PS and the BOM.
\<close>

definition isWhiteSpace :: "nat \<Rightarrow> bool" where
  "isWhiteSpace c \<longleftrightarrow>
     c \<in> set [9, 10, 11, 12, 13, 32, 160, 5760, 8192, 8193, 8194, 8195, 8196, 8197, 8198,
               8199, 8200, 8201, 8202, 8232, 8233, 8239, 8287, 12288, 65279]"

definition trim :: "jsstring \<Rightarrow> jsstring" where
  "trim s = rev (dropWhile isWhiteSpace (rev (dropWhile isWhiteSpace s)))"

text \<open>
  A number of the source is a double: a finite value, one of the two infinities, or
  \<open>NaN\<close>. The two zeros are one value (a divisor that is zero counts as \<open>+0\<close>, which is
  what a product of square roots is).
\<close>

datatype number = Fin real | PInf | NInf | NaN

text \<open>
  Every operation on finite values gives the exact result rounded to the nearest double,
  a tie going to the even significand (\<open>rne\<close>). The doubles around \<open>x\<close> are the multiples of
  \<open>ulp x\<close>, which is \<open>2^(e - 52)\<close> where \<open>2^e \<le> |x| < 2^(e + 1)\<close> and \<open>e\<close> is at least \<open>-1022\<close>
  (below \<open>2^-1022\<close> the spacing stays \<open>2^-1074\<close>). A rounded result of magnitude \<open>2^1024\<close> or
  more becomes an infinity (\<open>fl\<close>).
\<close>

definition overflow_bound :: real where
  "overflow_bound = 2 ^ 1024"

definition unit_roundoff :: real where
  "unit_roundoff = 1 / 2 ^ 53"

definition min_normal :: real where
  "min_normal = 1 / 2 ^ 1022"

definition min_spacing :: real where
  "min_spacing = 1 / 2 ^ 1074"

definition round_half_even :: "real \<Rightarrow> int" where
  "round_half_even y =
     (let f = \<lfloor>y\<rfloor> in
      if y - of_int f < 1 / 2 then f
      else if 1 / 2 < y - of_int f then f + 1
      else if even f then f else f + 1)"

definition binade :: "real \<Rightarrow> int" where
  "binade x = (if x = 0 then - 1022 else max \<lfloor>log 2 \<bar>x\<bar>\<rfloor> (- 1022))"

definition ulp :: "real \<Rightarrow> real" where
  "ulp x = 2 powr (of_int (binade x) - 52)"

definition rne :: "real \<Rightarrow> real" where
  "rne x = of_int (round_half_even (x / ulp x)) * ulp x"

definition fl :: "real \<Rightarrow> number" where
  "fl x = (if overflow_bound \<le> \<bar>rne x\<bar> then (if 0 < x then PInf else NInf) else Fin (rne x))"

fun num_neg :: "number \<Rightarrow> number" where
  "num_neg (Fin x) = Fin (- x)"
| "num_neg PInf = NInf"
| "num_neg NInf = PInf"
| "num_neg NaN = NaN"

fun num_add :: "number \<Rightarrow> number \<Rightarrow> number" where
  "num_add (Fin x) (Fin y) = fl (x + y)"
| "num_add NaN _ = NaN"
| "num_add _ NaN = NaN"
| "num_add PInf NInf = NaN"
| "num_add NInf PInf = NaN"
| "num_add PInf _ = PInf"
| "num_add NInf _ = NInf"
| "num_add _ PInf = PInf"
| "num_add _ NInf = NInf"

definition num_sub :: "number \<Rightarrow> number \<Rightarrow> number" where
  "num_sub a b = num_add a (num_neg b)"

text \<open>The sign of a number that is not \<open>NaN\<close>: \<open>True\<close> for a negative one.\<close>

fun is_negative :: "number \<Rightarrow> bool" where
  "is_negative (Fin x) = (x < 0)"
| "is_negative NInf = True"
| "is_negative _ = False"

fun is_positive :: "number \<Rightarrow> bool" where
  "is_positive (Fin x) = (0 < x)"
| "is_positive PInf = True"
| "is_positive _ = False"

fun num_mul :: "number \<Rightarrow> number \<Rightarrow> number" where
  "num_mul (Fin x) (Fin y) = fl (x * y)"
| "num_mul NaN _ = NaN"
| "num_mul _ NaN = NaN"
| "num_mul (Fin x) b = (if x = 0 then NaN else if (x < 0) = is_negative b then PInf else NInf)"
| "num_mul a (Fin y) = (if y = 0 then NaN else if is_negative a = (y < 0) then PInf else NInf)"
| "num_mul a b = (if is_negative a = is_negative b then PInf else NInf)"

fun num_div :: "number \<Rightarrow> number \<Rightarrow> number" where
  "num_div (Fin x) (Fin y) =
     (if y = 0 then (if x = 0 then NaN else if 0 < x then PInf else NInf) else fl (x / y))"
| "num_div NaN _ = NaN"
| "num_div _ NaN = NaN"
| "num_div (Fin x) _ = Fin 0"
| "num_div a (Fin y) = (if is_negative a = (y < 0) then PInf else NInf)"
| "num_div _ _ = NaN"

fun Math_sqrt :: "number \<Rightarrow> number" where
  "Math_sqrt (Fin x) = (if x < 0 then NaN else fl (sqrt x))"
| "Math_sqrt PInf = PInf"
| "Math_sqrt _ = NaN"

text \<open>\<open>Math.max\<close> of two numbers: \<open>NaN\<close> if either is \<open>NaN\<close>, else the larger.\<close>

fun Math_max :: "number \<Rightarrow> number \<Rightarrow> number" where
  "Math_max NaN _ = NaN"
| "Math_max _ NaN = NaN"
| "Math_max PInf _ = PInf"
| "Math_max _ PInf = PInf"
| "Math_max NInf b = b"
| "Math_max a NInf = a"
| "Math_max (Fin x) (Fin y) = Fin (max x y)"

text \<open>
  An argument of \<open>Array.prototype.slice\<close> is truncated towards zero
  (\<open>ToIntegerOrInfinity\<close>); a negative one counts from the end; both ends are clamped
  to the array. An omitted end is the length.
\<close>

definition ToIntegerOrInfinity :: "real \<Rightarrow> int" where
  "ToIntegerOrInfinity x = (if 0 \<le> x then \<lfloor>x\<rfloor> else - \<lfloor>- x\<rfloor>)"

definition relative_index :: "nat \<Rightarrow> int \<Rightarrow> nat" where
  "relative_index len rel =
     (if rel < 0 then nat (max (int len + rel) 0) else min (nat rel) len)"

definition slice :: "'a list \<Rightarrow> real \<Rightarrow> real option \<Rightarrow> 'a list" where
  "slice xs start end =
     (let len = length xs;
          k = relative_index len (ToIntegerOrInfinity start);
          final = (case end of None \<Rightarrow> len
                   | Some e \<Rightarrow> relative_index len (ToIntegerOrInfinity e))
      in take (final - k) (drop k xs))"

text \<open>
  \<open>Array.prototype.sort\<close> with a comparison function is stable: an element moves behind
  another one only when the comparison of the two is positive (a \<open>NaN\<close> comparison counts
  as \<open>+0\<close>). It is modelled as an insertion sort. Where the comparison is not consistent
  (scores that are \<open>NaN\<close>) the source language leaves the order to the implementation; the
  model fixes this one.
\<close>

fun insert_sorted :: "('a \<Rightarrow> 'a \<Rightarrow> number) \<Rightarrow> 'a \<Rightarrow> 'a list \<Rightarrow> 'a list" where
  "insert_sorted cmp x [] = [x]"
| "insert_sorted cmp x (y # ys) =
     (if is_positive (cmp x y) then y # insert_sorted cmp x ys else x # y # ys)"

definition array_sort :: "('a \<Rightarrow> 'a \<Rightarrow> number) \<Rightarrow> 'a list \<Rightarrow> 'a list" where
  "array_sort cmp xs = foldr (insert_sorted cmp) xs []"

text \<open>\<open>Array.prototype.join\<close> with a separator, and \<open>String.prototype.split\<close> at a code unit.\<close>

fun join :: "jsstring \<Rightarrow> jsstring list \<Rightarrow> jsstring" where
  "join sep [] = []"
| "join sep [x] = x"
| "join sep (x # y # ys) = x @ sep @ join sep (y # ys)"

fun split_at :: "nat \<Rightarrow> jsstring \<Rightarrow> jsstring \<Rightarrow> jsstring list" where
  "split_at sep piece [] = [piece]"
| "split_at sep piece (c # cs) =
     (if c = sep then piece # split_at sep [] cs else split_at sep (piece @ [c]) cs)"

definition split_string :: "jsstring \<Rightarrow> nat \<Rightarrow> jsstring list" where
  "split_string s sep = split_at sep [] s"

section \<open>Maps in insertion order\<close>

text \<open>
  A \<open>Map\<close> of the source iterates in insertion order: \<open>set\<close> on a present key replaces
  the value in place, on an absent key it appends the entry; \<open>delete\<close> removes the entry.
\<close>

type_synonym ('k, 'v) jsmap = "('k \<times> 'v) list"

definition map_has :: "('k, 'v) jsmap \<Rightarrow> 'k \<Rightarrow> bool" where
  "map_has m k \<longleftrightarrow> k \<in> fst ` set m"

definition map_get :: "('k, 'v) jsmap \<Rightarrow> 'k \<Rightarrow> 'v option" where
  "map_get m k = map_of m k"

fun map_set :: "('k, 'v) jsmap \<Rightarrow> 'k \<Rightarrow> 'v \<Rightarrow> ('k, 'v) jsmap" where
  "map_set [] k v = [(k, v)]"
| "map_set ((k', v') # m) k v = (if k' = k then (k, v) # m else (k', v') # map_set m k v)"

definition map_delete :: "('k, 'v) jsmap \<Rightarrow> 'k \<Rightarrow> ('k, 'v) jsmap" where
  "map_delete m k = filter (\<lambda>(k', v). k' \<noteq> k) m"

definition map_values :: "('k, 'v) jsmap \<Rightarrow> 'v list" where
  "map_values m = map snd m"

section \<open>The AI service\<close>

record chunk_metadata =
  meta_title :: jsstring
  meta_fileType :: jsstring
  chunkIndex :: nat
  totalChunks :: nat

record DocumentChunk =
  chunk_id :: jsstring
  documentId :: jsstring
  chunk_content :: jsstring
  chunk_embedding :: "real list"
  metadata :: chunk_metadata

record DocumentSource =
  source_id :: jsstring
  source_title :: jsstring
  source_content :: jsstring
  relevanceScore :: number
  source_lastUpdated :: int

record EmbeddingResult =
  embedding :: "real list"
  tokenCount :: int

text \<open>
  The state of the service: the API key and the vector store. Saving the store to
  \<open>localStorage\<close> changes neither and is left out.
\<close>

record AIService =
  apiKey :: jsstring
  vectorStore :: "(jsstring, DocumentChunk) jsmap"

subsection \<open>Embeddings\<close>

text \<open>
  The fallback embedding. No value in it comes near the end of the range (the seed is at
  most 65535 times the length of the text), so its arithmetic is written on the reals
  directly.
\<close>

definition generateMockEmbedding :: "jsstring \<Rightarrow> real list" where
  "generateMockEmbedding text =
     (let seed = foldl (\<lambda>acc char. acc + char) 0 text
      in map (\<lambda>i. sin (real seed * (real i + 1)) * 0.5 + 0.5) [0..<1536])"

text \<open>
  \<open>remote\<close> is what the embedding API answers for the text, \<open>None\<close> when the call fails
  (a transport error or a status that is not a success).
\<close>

definition generateEmbedding :: "AIService \<Rightarrow> EmbeddingResult option \<Rightarrow> jsstring \<Rightarrow> EmbeddingResult" where
  "generateEmbedding this remote text =
     (if apiKey this = [] then
        \<lparr>embedding = generateMockEmbedding text, tokenCount = \<lceil>real (length text) / 4\<rceil>\<rparr>
      else (case remote of
              Some r \<Rightarrow> r
            | None \<Rightarrow>
                \<lparr>embedding = generateMockEmbedding text, tokenCount = \<lceil>real (length text) / 4\<rceil>\<rparr>))"

subsection \<open>Cosine similarity\<close>

text \<open>
  The loop of \<open>cosineSimilarity\<close>: the three running sums over the indices of \<open>a\<close>, each
  product rounded and each sum rounded again. It runs only behind the test that the two
  lengths are equal. The components of an embedding are finite numbers.
\<close>

fun cosine_loop :: "real list \<Rightarrow> real list \<Rightarrow> number \<times> number \<times> number \<Rightarrow> number \<times> number \<times> number" where
  "cosine_loop (x # a) (y # b) (dotProduct, normA, normB) =
     cosine_loop a b
       (num_add dotProduct (fl (x * y)), num_add normA (fl (x * x)), num_add normB (fl (y * y)))"
| "cosine_loop _ _ acc = acc"

definition cosineSimilarity :: "real list \<Rightarrow> real list \<Rightarrow> number" where
  "cosineSimilarity a b =
     (if length a \<noteq> length b then Fin 0
      else (case cosine_loop a b (Fin 0, Fin 0, Fin 0) of
              (dotProduct, normA, normB) \<Rightarrow>
                num_div dotProduct (num_mul (Math_sqrt normA) (Math_sqrt normB))))"

subsection \<open>Search\<close>

text \<open>
  One turn of the grouping loop of \<open>searchDocuments\<close>; \<open>now\<close> is the clock. In the second
  branch the map has the key, so \<open>get\<close> finds the record.
\<close>

definition group_step ::
  "int \<Rightarrow> (jsstring, DocumentSource) jsmap \<Rightarrow> DocumentChunk \<times> number \<Rightarrow> (jsstring, DocumentSource) jsmap" where
  "group_step now documentMap r =
     (case r of (chunk, score) \<Rightarrow>
        (if \<not> map_has documentMap (documentId chunk) then
           map_set documentMap (documentId chunk)
             \<lparr>source_id = documentId chunk, source_title = meta_title (metadata chunk),
              source_content = chunk_content chunk, relevanceScore = score,
              source_lastUpdated = now\<rparr>
         else (case map_get documentMap (documentId chunk) of
                 None \<Rightarrow> documentMap
               | Some existing \<Rightarrow>
                   map_set documentMap (documentId chunk)
                     (existing\<lparr>source_content := source_content existing @ [10, 10] @ chunk_content chunk,
                               relevanceScore := Math_max (relevanceScore existing) score\<rparr>))))"

definition score_chunks :: "AIService \<Rightarrow> real list \<Rightarrow> (DocumentChunk \<times> number) list" where
  "score_chunks this queryEmbedding =
     map (\<lambda>(key, chunk). (chunk, cosineSimilarity queryEmbedding (chunk_embedding chunk)))
       (vectorStore this)"

definition topResults :: "AIService \<Rightarrow> real list \<Rightarrow> real \<Rightarrow> (DocumentChunk \<times> number) list" where
  "topResults this queryEmbedding topK =
     slice (array_sort (\<lambda>a b. num_sub (snd b) (snd a)) (score_chunks this queryEmbedding))
       0 (Some topK)"

definition searchDocuments ::
  "AIService \<Rightarrow> EmbeddingResult option \<Rightarrow> int \<Rightarrow> jsstring \<Rightarrow> real \<Rightarrow> DocumentSource list" where
  "searchDocuments this remote now query topK =
     map_values
       (foldl (group_step now) []
          (topResults this (embedding (generateEmbedding this remote query)) topK))"

subsection \<open>Removing a document from the index\<close>

definition removeDocument :: "AIService \<Rightarrow> jsstring \<Rightarrow> AIService" where
  "removeDocument this docId =
     (let keysToDelete = map fst (filter (\<lambda>(key, chunk). documentId chunk = docId) (vectorStore this))
      in this\<lparr>vectorStore := foldl map_delete (vectorStore this) keysToDelete\<rparr>)"

subsection \<open>The chunker\<close>

text \<open>
  \<open>text.split(/[.!?]+/)\<close>: the pieces of the text between the maximal runs of the three
  terminators, the empty pieces at the two ends included.
\<close>

definition isTerminator :: "nat \<Rightarrow> bool" where
  "isTerminator c \<longleftrightarrow> c = 46 \<or> c = 33 \<or> c = 63"

function split_terminators :: "jsstring \<Rightarrow> jsstring \<Rightarrow> jsstring list" where
  "split_terminators piece [] = [piece]"
| "split_terminators piece (c # cs) =
     (if isTerminator c then piece # split_terminators [] (dropWhile isTerminator cs)
      else split_terminators (piece @ [c]) cs)"
  by pat_completeness auto
termination
  by (relation "measure (\<lambda>(piece, cs). length cs)")
     (auto simp: length_dropWhile_le less_Suc_eq_le)

definition sentences_of :: "jsstring \<Rightarrow> jsstring list" where
  "sentences_of text = filter (\<lambda>s. trim s \<noteq> []) (split_terminators [] text)"

text \<open>The words kept as overlap: \<open>currentChunk.split(' ').slice(-overlap / 10)\<close>.\<close>

definition overlap_words :: "jsstring \<Rightarrow> real \<Rightarrow> jsstring list" where
  "overlap_words currentChunk overlap = slice (split_string currentChunk 32) (- overlap / 10) None"

text \<open>One turn of the loop over the sentences; the state is \<open>(chunks, currentChunk)\<close>.\<close>

definition chunk_step :: "real \<Rightarrow> real \<Rightarrow> jsstring list \<times> jsstring \<Rightarrow> jsstring \<Rightarrow> jsstring list \<times> jsstring" where
  "chunk_step chunkSize overlap st sentence =
     (case st of (chunks, currentChunk) \<Rightarrow>
        (if chunkSize < real (length (currentChunk @ sentence)) \<and> currentChunk \<noteq> [] then
           (chunks @ [trim currentChunk],
            (join [32] (overlap_words currentChunk overlap) @ [32]) @ sentence @ [46, 32])
         else (chunks, currentChunk @ sentence @ [46, 32])))"

definition splitIntoChunks :: "jsstring \<Rightarrow> real \<Rightarrow> real \<Rightarrow> jsstring list" where
  "splitIntoChunks text chunkSize overlap =
     (case foldl (chunk_step chunkSize overlap) ([], []) (sentences_of text) of
        (chunks, currentChunk) \<Rightarrow>
          (let chunks = (if trim currentChunk \<noteq> [] then chunks @ [trim currentChunk] else chunks)
           in if 0 < length chunks then chunks else [text]))"

text \<open>
  What the loop keeps true of \<open>(chunks, currentChunk)\<close>: no chunk is empty, and the buffer
  is empty or holds a full stop.
\<close>

definition chunker_inv :: "jsstring list \<times> jsstring \<Rightarrow> bool" where
  "chunker_inv st \<longleftrightarrow> (\<forall>c \<in> set (fst st). c \<noteq> []) \<and> (snd st = [] \<or> 46 \<in> set (snd st))"

subsection \<open>Indexing a document\<close>

text \<open>A thrown value: an \<open>Error\<close> object with its message, or any other value.\<close>

datatype thrown = Error jsstring | NonError

text \<open>The decimal digits of an index, as the template literal of the chunk id writes it.\<close>

fun show_nat :: "nat \<Rightarrow> jsstring" where
  "show_nat n = (if n < 10 then [48 + n] else show_nat (n div 10) @ [48 + n mod 10])"

declare show_nat.simps [simp del]

record IndexRequest =
  req_id :: jsstring
  req_title :: jsstring
  req_content :: jsstring
  req_fileType :: jsstring

text \<open>
  What the service meets outside itself while it indexes: \<open>remote_embedding\<close> is the answer
  of the embedding API for a text (\<open>None\<close> when the call fails, which the service
  recovers from); \<open>index_fault\<close> is a failure that escapes \<open>indexDocument\<close>, raised
  when chunk number \<open>n\<close> is reached. The code of the service raises none itself; the
  parameter stands for what the runtime may raise, which the callers guard against.
\<close>

record Outside =
  remote_embedding :: "jsstring \<Rightarrow> EmbeddingResult option"
  index_fault :: "(nat \<times> thrown) option"

fun index_chunks ::
  "Outside \<Rightarrow> IndexRequest \<Rightarrow> nat \<Rightarrow> AIService \<Rightarrow> nat \<Rightarrow> jsstring list \<Rightarrow> thrown option \<times> AIService" where
  "index_chunks out doc count this i [] = (None, this)"
| "index_chunks out doc count this i (c # cs) =
     (case (case index_fault out of Some (n, e) \<Rightarrow> (if n = i then Some e else None) | None \<Rightarrow> None) of
        Some e \<Rightarrow> (Some e, this)
      | None \<Rightarrow>
          (let chunkId = req_id doc @ js ''-chunk-'' @ show_nat i;
               chunk = \<lparr>chunk_id = chunkId, documentId = req_id doc, chunk_content = c,
                        chunk_embedding = embedding (generateEmbedding this (remote_embedding out c) c),
                        metadata = \<lparr>meta_title = req_title doc, meta_fileType = req_fileType doc,
                                     chunkIndex = i, totalChunks = count\<rparr>\<rparr>
           in index_chunks out doc count
                (this\<lparr>vectorStore := map_set (vectorStore this) chunkId chunk\<rparr>) (Suc i) cs))"

definition indexDocument :: "AIService \<Rightarrow> Outside \<Rightarrow> IndexRequest \<Rightarrow> thrown option \<times> AIService" where
  "indexDocument this out doc =
     (let chunks = splitIntoChunks (req_content doc) 500 50
      in index_chunks out doc (length chunks) this 0 chunks)"

section \<open>The document service\<close>

datatype status = pending | processing | indexed | error

record Document =
  doc_id :: jsstring
  doc_title :: jsstring
  doc_content :: jsstring
  doc_fileType :: jsstring
  fileSize :: nat
  uploadedAt :: int
  doc_lastUpdated :: int
  status :: status
  chunkCount :: "nat option"
  doc_error :: "jsstring option"

text \<open>
  The state of the two singletons together: the documents of the document service and the
  AI service it calls. Saving to \<open>localStorage\<close> and notifying the subscribers change
  neither and are left out; operations run one after the other, none interleaves with
  the waiting of another.
\<close>

record Services =
  documents :: "(jsstring, Document) jsmap"
  aiService :: AIService

record File =
  file_name :: jsstring
  file_size :: nat

text \<open>
  What an upload or an update meets outside the services: the identifier drawn by
  \<open>crypto.randomUUID\<close>, the readings of the clock, the outcome of \<open>file.text()\<close>, the
  text of the PDF and DOCX placeholders, and the outside of the indexing.
\<close>

record World =
  new_id :: jsstring
  time_uploaded :: int
  time_updated :: int
  time_indexed :: int
  file_text :: "thrown + jsstring"
  placeholder_text :: jsstring
  indexing :: Outside

text \<open>\<open>toLowerCase\<close> on the letters A to Z; other code units are kept as they are.\<close>

definition toLowerCase :: "jsstring \<Rightarrow> jsstring" where
  "toLowerCase s = map (\<lambda>c. if 65 \<le> c \<and> c \<le> 90 then c + 32 else c) s"

definition getFileType :: "File \<Rightarrow> jsstring" where
  "getFileType file =
     (let extension = toLowerCase (last (split_string (file_name file) 46))
      in if extension \<noteq> [] then extension else js ''unknown'')"

definition extractContent :: "World \<Rightarrow> File \<Rightarrow> thrown + jsstring" where
  "extractContent w file =
     (let fileType = getFileType file in
      if fileType \<in> set [js ''txt'', js ''md'', js ''json'', js ''csv''] then file_text w
      else if fileType = js ''pdf'' then Inr (placeholder_text w)
      else if fileType = js ''docx'' then Inr (placeholder_text w)
      else (case file_text w of
              Inr content \<Rightarrow> Inr content
            | Inl e \<Rightarrow> Inl (Error (js ''Unsupported file type: '' @ fileType))))"

text \<open>The handler of both \<open>catch\<close> blocks: record the failure on the document, throw it again.\<close>

definition error_message :: "thrown \<Rightarrow> jsstring" where
  "error_message e = (case e of Error message \<Rightarrow> message | NonError \<Rightarrow> js ''Unknown error'')"

definition record_failure :: "Services \<Rightarrow> jsstring \<Rightarrow> Document \<Rightarrow> thrown \<Rightarrow> Services \<times> (thrown + Document)" where
  "record_failure s key document e =
     (s\<lparr>documents := map_set (documents s) key
           (document\<lparr>status := error, doc_error := Some (error_message e)\<rparr>)\<rparr>,
      Inl e)"

definition uploadFile :: "Services \<Rightarrow> World \<Rightarrow> File \<Rightarrow> Services \<times> (thrown + Document)" where
  "uploadFile s w file =
     (let id' = new_id w;
          document = \<lparr>doc_id = id', doc_title = file_name file, doc_content = [],
                      doc_fileType = getFileType file, fileSize = file_size file,
                      uploadedAt = time_uploaded w, doc_lastUpdated = time_updated w,
                      status = pending, chunkCount = None, doc_error = None\<rparr>;
          s = s\<lparr>documents := map_set (documents s) id' document\<rparr>;
          document = document\<lparr>status := processing\<rparr>;
          s = s\<lparr>documents := map_set (documents s) id' document\<rparr>
      in case extractContent w file of
           Inl e \<Rightarrow> record_failure s id' document e
         | Inr content \<Rightarrow>
             (let document = document\<lparr>doc_content := content\<rparr>;
                  s = s\<lparr>documents := map_set (documents s) id' document\<rparr>
              in case indexDocument (aiService s) (indexing w)
                        \<lparr>req_id = doc_id document, req_title = doc_title document,
                         req_content = doc_content document, req_fileType = doc_fileType document\<rparr> of
                   (Some e, ai) \<Rightarrow> record_failure (s\<lparr>aiService := ai\<rparr>) id' document e
                 | (None, ai) \<Rightarrow>
                     (let document = document\<lparr>status := indexed, doc_lastUpdated := time_indexed w\<rparr>
                      in (s\<lparr>aiService := ai, documents := map_set (documents s) id' document\<rparr>,
                          Inr document))))"

definition updateDocument :: "Services \<Rightarrow> World \<Rightarrow> jsstring \<Rightarrow> jsstring \<Rightarrow> Services \<times> (thrown + Document)" where
  "updateDocument s w id' content =
     (case map_get (documents s) id' of
        None \<Rightarrow> (s, Inl (Error (js ''Document not found'')))
      | Some document \<Rightarrow>
          (let document = document\<lparr>doc_content := content, doc_lastUpdated := time_updated w,
                                    status := processing\<rparr>;
               s = s\<lparr>documents := map_set (documents s) id' document\<rparr>;
               ai = removeDocument (aiService s) id'
           in case indexDocument ai (indexing w)
                     \<lparr>req_id = doc_id document, req_title = doc_title document,
                      req_content = doc_content document, req_fileType = doc_fileType document\<rparr> of
                (Some e, ai) \<Rightarrow> record_failure (s\<lparr>aiService := ai\<rparr>) id' document e
              | (None, ai) \<Rightarrow>
                  (let document = document\<lparr>status := indexed\<rparr>
                   in (s\<lparr>aiService := ai, documents := map_set (documents s) id' document\<rparr>,
                       Inr document))))"

text \<open>\<open>deleteDocument\<close> returns nothing and has no \<open>throw\<close>: its outcome is always a return.\<close>

definition deleteDocument :: "Services \<Rightarrow> jsstring \<Rightarrow> Services \<times> (thrown + unit)" where
  "deleteDocument s id' =
     (s\<lparr>aiService := removeDocument (aiService s) id',
        documents := map_delete (documents s) id'\<rparr>,
      Inr ())"

definition getAllDocuments :: "Services \<Rightarrow> Document list" where
  "getAllDocuments s =
     array_sort (\<lambda>a b. num_sub (Fin (real_of_int (doc_lastUpdated b))) (Fin (real_of_int (doc_lastUpdated a))))
       (map_values (documents s))"

fun string_includes :: "jsstring \<Rightarrow> jsstring \<Rightarrow> bool" where
  "string_includes [] t = (t = [])"
| "string_includes (c # s) t = (take (length t) (c # s) = t \<or> string_includes s t)"

definition searchByTitle :: "Services \<Rightarrow> jsstring \<Rightarrow> Document list" where
  "searchByTitle s query =
     (let lowerQuery = toLowerCase query
      in filter (\<lambda>doc. string_includes (toLowerCase (doc_title doc)) lowerQuery) (getAllDocuments s))"

text \<open>
  A document on which a failure with the given message is recorded: it is in the document
  set, its status is \<open>error\<close> and its error is that message.
\<close>

definition failed_document :: "Services \<Rightarrow> jsstring \<Rightarrow> jsstring \<Rightarrow> bool" where
  "failed_document s key message =
     (case map_get (documents s) key of
        Some d \<Rightarrow> status d = error \<and> doc_error d = Some message
      | None \<Rightarrow> False)"

section \<open>The grouping of the retriever, in the words of the specification\<close>

text \<open>
  The documents of a ranked list in the order of their first occurrence; for one document,
  its chunks in the ranked list; and the record the specification describes for it: the
  title of the first chunk, the texts of its chunks joined with a blank line, the maximum
  (\<open>Math.max\<close>) of their scores.
\<close>

definition first_occurrences :: "'a list \<Rightarrow> 'a list" where
  "first_occurrences xs = rev (remdups (rev xs))"

definition chunks_of :: "(DocumentChunk \<times> number) list \<Rightarrow> jsstring \<Rightarrow> (DocumentChunk \<times> number) list" where
  "chunks_of rs d = filter (\<lambda>(chunk, score). documentId chunk = d) rs"

definition source_of :: "int \<Rightarrow> (DocumentChunk \<times> number) list \<Rightarrow> jsstring \<Rightarrow> DocumentSource" where
  "source_of now rs d =
     (let g = chunks_of rs d in
      \<lparr>source_id = d, source_title = meta_title (metadata (fst (hd g))),
       source_content = join [10, 10] (map (\<lambda>(chunk, score). chunk_content chunk) g),
       relevanceScore = foldl Math_max (snd (hd g)) (map snd (tl g)),
       source_lastUpdated = now\<rparr>)"

definition grouped_spec :: "int \<Rightarrow> (DocumentChunk \<times> number) list \<Rightarrow> DocumentSource list" where
  "grouped_spec now rs = map (source_of now rs) (first_occurrences (map (\<lambda>(chunk, score). documentId chunk) rs))"

section \<open>The cosine, in the words of the specification\<close>

text \<open>The dot product and the squared norm as sums of real numbers, without rounding.\<close>

definition dot :: "real list \<Rightarrow> real list \<Rightarrow> real" where
  "dot a b = sum_list (map (\<lambda>(x, y). x * y) (zip a b))"

definition norm_sq :: "real list \<Rightarrow> real" where
  "norm_sq a = sum_list (map (\<lambda>x. x * x) a)"

text \<open>
  The vectors on which the loop of \<open>cosineSimilarity\<close> neither overflows nor loses
  precision below the normal range of a double: at most \<open>2^20\<close> components, one of them not
  zero, every such component of magnitude \<open>2^-500\<close> at least, and a sum of squares of at
  most \<open>2^1020\<close>.
\<close>

definition component_floor :: real where
  "component_floor = 1 / 2 ^ 500"

definition norm_floor :: real where
  "norm_floor = 1 / 2 ^ 1000"

definition norm_ceiling :: real where
  "norm_ceiling = 2 ^ 1020"

definition max_length :: nat where
  "max_length = 2 ^ 20"

definition in_normal_range :: "real list \<Rightarrow> bool" where
  "in_normal_range a \<longleftrightarrow>
     length a \<le> max_length \<and> list_ex (\<lambda>x. x \<noteq> 0) a
     \<and> list_all (\<lambda>x. x = 0 \<or> component_floor \<le> \<bar>x\<bar>) a \<and> norm_sq a \<le> norm_ceiling"

text \<open>A number is \<open>close_to\<close> a real value when it is finite and within the tolerance of it.\<close>

definition close_to :: "number \<Rightarrow> real \<Rightarrow> real \<Rightarrow> bool" where
  "close_to v c tol = (case v of Fin r \<Rightarrow> \<bar>r - c\<bar> \<le> tol | _ \<Rightarrow> False)"

text \<open>
  What the loop of \<open>cosineSimilarity\<close> keeps after \<open>k\<close> turns: a running sum of squares
  \<open>na\<close> is the sum \<open>A\<close> of the real squares up to a factor between \<open>(1 - 2^-53)^(2k)\<close> and
  \<open>(1 + 2^-53)^(2k)\<close>; the running dot product \<open>d\<close> is away from the real one \<open>D\<close> by a
  share of the sum \<open>S\<close> of the magnitudes of the products, and by \<open>2^-1075\<close> for each
  rounding of a sum that may be subnormal.
\<close>

definition norm_inv :: "nat \<Rightarrow> real \<Rightarrow> real \<Rightarrow> bool" where
  "norm_inv k na A \<longleftrightarrow>
     0 \<le> A \<and> (A = 0 \<or> norm_floor \<le> A)
     \<and> (1 - unit_roundoff) ^ (2 * k) * A \<le> na \<and> na \<le> (1 + unit_roundoff) ^ (2 * k) * A"

definition dot_inv :: "nat \<Rightarrow> real \<Rightarrow> real \<Rightarrow> real \<Rightarrow> bool" where
  "dot_inv k d D S \<longleftrightarrow>
     \<bar>D\<bar> \<le> S
     \<and> \<bar>d - D\<bar> \<le> ((1 + unit_roundoff) ^ (2 * k) - 1) * S
                    + real k * (min_spacing / 2) * (1 + unit_roundoff) ^ (2 * k)"

section \<open>Example data\<close>

definition example_chunk :: "jsstring \<Rightarrow> jsstring \<Rightarrow> jsstring \<Rightarrow> real list \<Rightarrow> DocumentChunk" where
  "example_chunk key doc text vec =
     \<lparr>chunk_id = key, documentId = doc, chunk_content = text, chunk_embedding = vec,
      metadata = \<lparr>meta_title = doc, meta_fileType = js ''txt'', chunkIndex = 0, totalChunks = 1\<rparr>\<rparr>"

definition example_service :: AIService where
  "example_service =
     \<lparr>apiKey = js ''k'',
      vectorStore =
        [(js ''a0'', example_chunk (js ''a0'') (js ''a'') (js ''x'') [0, 1]),
         (js ''b0'', example_chunk (js ''b0'') (js ''b'') (js ''y'') [1, 0]),
         (js ''a1'', example_chunk (js ''a1'') (js ''a'') (js ''z'') [-1, 0])]\<rparr>"

definition example_answer :: "EmbeddingResult option" where
  "example_answer = Some \<lparr>embedding = [1, 0], tokenCount = 1\<rparr>"

text \<open>
  A world in which \<open>file.text()\<close> fails and in which the indexing fails at the first
  chunk, a stored document, and a file to upload.
\<close>

definition example_world :: World where
  "example_world =
     \<lparr>new_id = js ''u1'', time_uploaded = 1, time_updated = 2, time_indexed = 3,
      file_text = Inl (Error (js ''unreadable'')), placeholder_text = js ''stub'',
      indexing = \<lparr>remote_embedding = (\<lambda>t. None), index_fault = Some (0, NonError)\<rparr>\<rparr>"

definition example_document :: Document where
  "example_document =
     \<lparr>doc_id = js ''d1'', doc_title = js ''guide.txt'', doc_content = js ''Old.'',
      doc_fileType = js ''txt'', fileSize = 4, uploadedAt = 0, doc_lastUpdated = 0,
      status = indexed, chunkCount = None, doc_error = None\<rparr>"

definition example_services :: Services where
  "example_services = \<lparr>documents = [(js ''d1'', example_document)], aiService = example_service\<rparr>"

definition example_file :: File where
  "example_file = \<lparr>file_name = js ''x.txt'', file_size = 3\<rparr>"

text \<open>
  The same world with a file that can be read, so that the indexing is reached; and the
  services with no document and no chunk.
\<close>

definition example_world_readable :: World where
  "example_world_readable = example_world\<lparr>file_text := Inr (js ''Hi.'')\<rparr>"

definition empty_services :: Services where
  "empty_services = \<lparr>documents = [], aiService = \<lparr>apiKey = [], vectorStore = []\<rparr>\<rparr>"

section \<open>Rounding to the nearest double\<close>

lemma round_half_even_error: "\<bar>of_int (round_half_even y) - y\<bar> \<le> 1 / 2"
proof -
  have "of_int \<lfloor>y\<rfloor> \<le> y" and "y < of_int \<lfloor>y\<rfloor> + 1" by linarith+
  then show ?thesis
    by (auto simp: round_half_even_def Let_def)
qed

lemma round_half_even_of_int: "round_half_even (of_int k) = k"
  by (simp add: round_half_even_def)

lemma ulp_pos: "0 < ulp x"
  by (simp add: ulp_def)

lemma rne_zero: "rne 0 = 0"
  by (simp add: rne_def round_half_even_def)

lemma rne_error_ulp: "\<bar>rne x - x\<bar> \<le> ulp x / 2"
proof -
  have "rne x - x = (of_int (round_half_even (x / ulp x)) - x / ulp x) * ulp x"
    using ulp_pos [of x] by (simp add: rne_def algebra_simps)
  then have "\<bar>rne x - x\<bar> = \<bar>of_int (round_half_even (x / ulp x)) - x / ulp x\<bar> * ulp x"
    using ulp_pos [of x] by (simp add: abs_mult)
  also have "\<dots> \<le> (1 / 2) * ulp x"
    using round_half_even_error [of "x / ulp x"] ulp_pos [of x]
    by (intro mult_right_mono) simp_all
  finally show ?thesis by simp
qed

lemma min_normal_powr: "min_normal = 2 powr (- 1022)"
proof -
  have "(2::real) powr (- 1022) = 1 / 2 powr 1022" by (simp add: powr_minus_divide)
  also have "(2::real) powr 1022 = 2 ^ 1022" by (simp add: powr_realpow [symmetric])
  finally show ?thesis by (simp add: min_normal_def)
qed

lemma binade_normal:
  assumes "min_normal \<le> \<bar>x\<bar>"
  shows "binade x = \<lfloor>log 2 \<bar>x\<bar>\<rfloor>" and "2 powr (of_int (binade x)) \<le> \<bar>x\<bar>"
proof -
  have "0 < min_normal" by (simp add: min_normal_def)
  then have pos: "0 < \<bar>x\<bar>" using assms by (rule less_le_trans)
  then have nz: "x \<noteq> 0" by simp
  have "log 2 min_normal \<le> log 2 \<bar>x\<bar>"
    using assms pos by (simp add: min_normal_def)
  moreover have "log 2 min_normal = - 1022"
    by (simp add: min_normal_powr)
  ultimately have "- 1022 \<le> \<lfloor>log 2 \<bar>x\<bar>\<rfloor>" by (simp add: le_floor_iff)
  then show b: "binade x = \<lfloor>log 2 \<bar>x\<bar>\<rfloor>" using nz by (simp add: binade_def)
  have "2 powr (of_int \<lfloor>log 2 \<bar>x\<bar>\<rfloor>) \<le> 2 powr (log 2 \<bar>x\<bar>)"
    by (intro powr_mono) simp_all
  also have "\<dots> = \<bar>x\<bar>" using pos by simp
  finally show "2 powr (of_int (binade x)) \<le> \<bar>x\<bar>" by (simp add: b)
qed

lemma ulp_normal:
  assumes "min_normal \<le> \<bar>x\<bar>"
  shows "ulp x \<le> \<bar>x\<bar> / 2 ^ 52"
proof -
  have "ulp x = 2 powr (of_int (binade x)) / 2 powr 52"
    by (simp add: ulp_def powr_diff)
  also have "(2::real) powr 52 = 2 ^ 52" by (simp add: powr_realpow [symmetric])
  finally have "ulp x = 2 powr (of_int (binade x)) / 2 ^ 52" .
  then show ?thesis using binade_normal(2) [OF assms] by (simp add: divide_right_mono)
qed

lemma ulp_subnormal:
  assumes "\<bar>x\<bar> < min_normal"
  shows "ulp x = min_spacing"
proof -
  have "binade x = - 1022"
  proof (cases "x = 0")
    case True
    then show ?thesis by (simp add: binade_def)
  next
    case False
    then have pos: "0 < \<bar>x\<bar>" by simp
    have "log 2 \<bar>x\<bar> < log 2 min_normal"
      using assms pos by simp
    then have "log 2 \<bar>x\<bar> < - 1022" by (simp add: min_normal_powr)
    then have "\<lfloor>log 2 \<bar>x\<bar>\<rfloor> < - 1022" by (simp add: floor_less_iff)
    then show ?thesis using False by (simp add: binade_def)
  qed
  then have "ulp x = 2 powr (- 1074)" by (simp add: ulp_def)
  also have "\<dots> = 1 / 2 powr 1074" by (simp add: powr_minus_divide)
  also have "(2::real) powr 1074 = 2 ^ 1074" by (simp add: powr_realpow [symmetric])
  finally show ?thesis by (simp add: min_spacing_def)
qed

lemma rne_relative:
  assumes "min_normal \<le> \<bar>x\<bar>"
  shows "\<bar>rne x - x\<bar> \<le> unit_roundoff * \<bar>x\<bar>"
proof -
  have "\<bar>rne x - x\<bar> \<le> ulp x / 2" by (rule rne_error_ulp)
  also have "\<dots> \<le> (\<bar>x\<bar> / 2 ^ 52) / 2" using ulp_normal [OF assms] by simp
  also have "\<dots> = unit_roundoff * \<bar>x\<bar>" by (simp add: unit_roundoff_def)
  finally show ?thesis .
qed

lemma rne_general: "\<bar>rne x - x\<bar> \<le> unit_roundoff * \<bar>x\<bar> + min_spacing / 2"
proof (cases "min_normal \<le> \<bar>x\<bar>")
  case True
  have "0 \<le> min_spacing" by (simp add: min_spacing_def)
  with rne_relative [OF True] show ?thesis by linarith
next
  case False
  then have "ulp x = min_spacing" by (simp add: ulp_subnormal)
  with rne_error_ulp [of x] have "\<bar>rne x - x\<bar> \<le> min_spacing / 2" by simp
  moreover have "0 \<le> unit_roundoff * \<bar>x\<bar>" by (simp add: unit_roundoff_def)
  ultimately show ?thesis by linarith
qed

lemma unit_roundoff_bounds: "0 < unit_roundoff" "unit_roundoff \<le> 1 / 2"
  by (simp_all add: unit_roundoff_def)

lemma min_spacing_bounds: "0 < min_spacing" "min_spacing \<le> 1"
  by (simp_all add: min_spacing_def)

lemma overflow_bound_ge_4: "4 \<le> overflow_bound"
  by (simp add: overflow_bound_def)

lemma min_normal_le_1: "min_normal \<le> 1" and min_normal_pos: "0 < min_normal"
  by (simp_all add: min_normal_def)

lemma rne_abs_le: "\<bar>rne x\<bar> \<le> (1 + unit_roundoff) * \<bar>x\<bar> + min_spacing / 2"
proof -
  have "\<bar>rne x\<bar> \<le> \<bar>x\<bar> + \<bar>rne x - x\<bar>" by linarith
  also have "\<dots> \<le> \<bar>x\<bar> + (unit_roundoff * \<bar>x\<bar> + min_spacing / 2)"
    using rne_general [of x] by linarith
  finally show ?thesis by (simp add: algebra_simps)
qed

lemma fl_finite:
  assumes "\<bar>x\<bar> \<le> overflow_bound / 2"
  shows "fl x = Fin (rne x)"
proof -
  have "unit_roundoff * \<bar>x\<bar> \<le> (1 / 2) * \<bar>x\<bar>"
    using unit_roundoff_bounds(2) by (intro mult_right_mono) simp_all
  then have "(1 + unit_roundoff) * \<bar>x\<bar> + min_spacing / 2 \<le> (3 / 2) * \<bar>x\<bar> + 1 / 2"
    using min_spacing_bounds(2) by (simp add: algebra_simps)
  also have "\<dots> < overflow_bound"
    using assms overflow_bound_ge_4 by linarith
  finally have "\<bar>rne x\<bar> < overflow_bound"
    using rne_abs_le [of x] by linarith
  then show ?thesis by (simp add: fl_def)
qed

lemma fl_overflow:
  assumes "2 * overflow_bound \<le> x"
  shows "fl x = PInf"
proof -
  have x: "0 < x" "min_normal \<le> \<bar>x\<bar>"
    using assms overflow_bound_ge_4 min_normal_le_1 by linarith+
  have "unit_roundoff * \<bar>x\<bar> \<le> (1 / 2) * \<bar>x\<bar>"
    using unit_roundoff_bounds(2) by (intro mult_right_mono) simp_all
  with rne_relative [OF x(2)] have "\<bar>rne x - x\<bar> \<le> (1 / 2) * \<bar>x\<bar>" by linarith
  then have "\<bar>rne x - x\<bar> \<le> x / 2" using x(1) by simp
  then have "overflow_bound \<le> \<bar>rne x\<bar>" using assms by linarith
  then show ?thesis using x(1) by (simp add: fl_def)
qed

lemma rne_nearest:
  assumes "\<bar>x / ulp x - of_int k\<bar> < 1 / 2"
  shows "rne x = of_int k * ulp x"
proof -
  let ?y = "x / ulp x"
  have "\<bar>of_int (round_half_even ?y) - of_int k\<bar> < (1::real)"
    using round_half_even_error [of ?y] assms by linarith
  then have "\<bar>round_half_even ?y - k\<bar> < 1"
    by (metis of_int_diff of_int_abs of_int_less_1_iff)
  then have "round_half_even ?y = k" by linarith
  then show ?thesis by (simp add: rne_def)
qed

lemma rne_exact:
  assumes "x / ulp x = of_int k"
  shows "rne x = x"
proof -
  have "rne x = (x / ulp x) * ulp x"
    unfolding rne_def assms by (simp add: round_half_even_of_int)
  then show ?thesis using ulp_pos [of x] by simp
qed

lemma binade_eq:
  assumes "2 ^ n \<le> \<bar>x\<bar>" and "\<bar>x\<bar> < 2 ^ Suc n"
  shows "binade x = int n"
proof -
  have pos: "0 < \<bar>x\<bar>" using assms(1) by (smt (verit) zero_less_power)
  have "log 2 (2 ^ n) \<le> log 2 \<bar>x\<bar>"
    using assms(1) pos by (intro log_mono) simp_all
  moreover have "log 2 ((2::real) ^ n) = real n" by (simp add: log_nat_power)
  ultimately have lo: "real n \<le> log 2 \<bar>x\<bar>" by simp
  have "log 2 \<bar>x\<bar> < log 2 (2 ^ Suc n)"
    using assms(2) pos by (intro log_less) simp_all
  moreover have "log 2 ((2::real) ^ Suc n) = real n + 1"
    using log_nat_power [of 2 2 "Suc n"] by simp
  ultimately have hi: "log 2 \<bar>x\<bar> < real n + 1" by simp
  have "\<lfloor>log 2 \<bar>x\<bar>\<rfloor> = int n"
    using lo hi by (simp add: floor_eq_iff)
  then show ?thesis using pos by (simp add: binade_def)
qed

lemma ulp_eq:
  assumes "2 ^ n \<le> \<bar>x\<bar>" and "\<bar>x\<bar> < 2 ^ Suc n"
  shows "ulp x = 2 ^ n / 2 ^ 52"
proof -
  have "ulp x = 2 powr (real n) / 2 powr 52"
    using binade_eq [OF assms] by (simp add: ulp_def powr_diff)
  also have "(2::real) powr (real n) = 2 ^ n" by (simp add: powr_realpow)
  also have "(2::real) powr 52 = 2 ^ 52" by (simp add: powr_realpow [symmetric])
  finally show ?thesis .
qed

lemma ulp_1: "ulp 1 = 1 / 2 ^ 52" and ulp_m1: "ulp (- 1) = 1 / 2 ^ 52"
  using ulp_eq [of 0 1] ulp_eq [of 0 "- 1"] by simp_all

lemma ulp_2: "ulp 2 = 2 / 2 ^ 52" and ulp_m2: "ulp (- 2) = 2 / 2 ^ 52"
  using ulp_eq [of 1 2] ulp_eq [of 1 "- 2"] by simp_all

lemma rne_small:
  "rne 1 = 1" "rne (- 1) = - 1" "rne 2 = 2" "rne (- 2) = - 2"
proof -
  show "rne 1 = 1" by (rule rne_exact [of _ "2 ^ 52"]) (simp add: ulp_1)
  show "rne (- 1) = - 1" by (rule rne_exact [of _ "- (2 ^ 52)"]) (simp add: ulp_m1)
  show "rne 2 = 2" by (rule rne_exact [of _ "2 ^ 52"]) (simp add: ulp_2)
  show "rne (- 2) = - 2" by (rule rne_exact [of _ "- (2 ^ 52)"]) (simp add: ulp_m2)
qed

lemma fl_small:
  "fl 0 = Fin 0" "fl 1 = Fin 1" "fl (- 1) = Fin (- 1)" "fl 2 = Fin 2" "fl (- 2) = Fin (- 2)"
  using overflow_bound_ge_4 by (simp_all add: fl_finite rne_zero rne_small)

section \<open>Removing a document sweeps its chunks\<close>

lemma foldl_map_delete: "foldl map_delete m ks = filter (\<lambda>(k, v). k \<notin> set ks) m"
proof (induction ks arbitrary: m)
  case Nil
  then show ?case by simp
next
  case (Cons k ks)
  have "foldl map_delete m (k # ks) = filter (\<lambda>(k', v). k' \<notin> set ks) (map_delete m k)"
    using Cons.IH [of "map_delete m k"] by simp
  also have "\<dots> = filter (\<lambda>(k', v). k' \<notin> set ks) (filter (\<lambda>(k', v). k' \<noteq> k) m)"
    by (simp only: map_delete_def)
  also have "\<dots> = filter (\<lambda>(k', v). k' \<notin> set (k # ks)) m"
    by (induction m) auto
  finally show ?case .
qed

lemma vectorStore_removeDocument:
  "vectorStore (removeDocument this docId) =
     filter (\<lambda>(key, chunk). key \<notin> fst ` {e \<in> set (vectorStore this). documentId (snd e) = docId})
       (vectorStore this)"
proof -
  have "set (map fst (filter (\<lambda>(key, chunk). documentId chunk = docId) (vectorStore this)))
        = fst ` {e \<in> set (vectorStore this). documentId (snd e) = docId}"
    by (auto simp: case_prod_unfold)
  then show ?thesis
    by (simp add: removeDocument_def foldl_map_delete)
qed

lemma removeDocument_no_chunk:
  assumes "(key, chunk) \<in> set (vectorStore (removeDocument this docId))"
  shows "documentId chunk \<noteq> docId"
proof
  assume d: "documentId chunk = docId"
  from assms have m: "(key, chunk) \<in> set (vectorStore this)"
    and n: "key \<notin> fst ` {e \<in> set (vectorStore this). documentId (snd e) = docId}"
    by (simp_all add: vectorStore_removeDocument)
  from m d have "(key, chunk) \<in> {e \<in> set (vectorStore this). documentId (snd e) = docId}"
    by simp
  then have "key \<in> fst ` {e \<in> set (vectorStore this). documentId (snd e) = docId}"
    by (rule rev_image_eqI) simp
  with n show False by contradiction
qed

lemma set_insert_sorted: "set (insert_sorted cmp x ys) = insert x (set ys)"
  by (induction ys) auto

lemma set_array_sort: "set (array_sort cmp xs) = set xs"
  by (induction xs) (simp_all add: array_sort_def set_insert_sorted)

lemma length_insert_sorted: "length (insert_sorted cmp x ys) = Suc (length ys)"
  by (induction ys) auto

lemma length_array_sort: "length (array_sort cmp xs) = length xs"
  by (induction xs) (simp_all add: array_sort_def length_insert_sorted)

lemma set_slice: "set (slice xs start end) \<subseteq> set xs"
proof
  fix x assume "x \<in> set (slice xs start end)"
  then obtain n k where "x \<in> set (take n (drop k xs))"
    by (auto simp: slice_def Let_def)
  then show "x \<in> set xs"
    by (meson in_set_takeD in_set_dropD)
qed

lemma length_slice_0:
  assumes "0 \<le> k"
  shows "real (length (slice xs 0 (Some k))) \<le> k"
proof -
  have "length (slice xs 0 (Some k)) = min (nat \<lfloor>k\<rfloor>) (length xs)"
    using assms by (simp add: slice_def Let_def relative_index_def ToIntegerOrInfinity_def)
  moreover have "real (nat \<lfloor>k\<rfloor>) \<le> k"
    using assms by (simp add: of_nat_floor)
  ultimately show ?thesis by simp
qed

section \<open>The grouping loop computes the specified records\<close>

lemma join_snoc: "xs \<noteq> [] \<Longrightarrow> join sep (xs @ [x]) = join sep xs @ sep @ x"
  by (induction sep xs rule: join.induct) auto

lemma first_occurrences_snoc:
  "first_occurrences (xs @ [x]) = (if x \<in> set xs then first_occurrences xs else first_occurrences xs @ [x])"
  by (simp add: first_occurrences_def)

lemma set_first_occurrences: "set (first_occurrences xs) = set xs"
  by (simp add: first_occurrences_def)

lemma distinct_first_occurrences: "distinct (first_occurrences xs)"
  by (simp add: first_occurrences_def)

lemma length_first_occurrences: "length (first_occurrences xs) \<le> length xs"
  using length_remdups_leq [of "rev xs"] by (simp add: first_occurrences_def)

lemma map_set_absent: "k \<notin> fst ` set m \<Longrightarrow> map_set m k v = m @ [(k, v)]"
  by (induction m) auto

lemma map_set_present:
  "distinct ds \<Longrightarrow> k \<in> set ds \<Longrightarrow>
   map_set (map (\<lambda>d. (d, f d)) ds) k v = map (\<lambda>d. (d, if d = k then v else f d)) ds"
  by (induction ds) auto

lemma map_get_present: "k \<in> set ds \<Longrightarrow> map_get (map (\<lambda>d. (d, f d)) ds) k = Some (f k)"
  by (induction ds) (auto simp: map_get_def)

lemma map_has_keys: "map_has (map (\<lambda>d. (d, f d)) ds) k \<longleftrightarrow> k \<in> set ds"
  by (auto simp: map_has_def image_iff)

lemma chunks_of_snoc:
  "chunks_of (rs @ [(chunk, score)]) d =
     (if documentId chunk = d then chunks_of rs d @ [(chunk, score)] else chunks_of rs d)"
  by (simp add: chunks_of_def)

lemma chunks_of_nonempty: "d \<in> (\<lambda>(chunk, score). documentId chunk) ` set rs \<Longrightarrow> chunks_of rs d \<noteq> []"
  by (auto simp: chunks_of_def filter_empty_conv)

lemma chunks_of_empty: "d \<notin> (\<lambda>(chunk, score). documentId chunk) ` set rs \<Longrightarrow> chunks_of rs d = []"
  by (force simp: chunks_of_def filter_empty_conv)

lemma source_of_other:
  "documentId chunk \<noteq> d \<Longrightarrow> source_of now (rs @ [(chunk, score)]) d = source_of now rs d"
  by (simp add: source_of_def chunks_of_snoc)

lemma source_of_first:
  "documentId chunk \<notin> (\<lambda>(chunk, score). documentId chunk) ` set rs \<Longrightarrow>
   source_of now (rs @ [(chunk, score)]) (documentId chunk) =
     \<lparr>source_id = documentId chunk, source_title = meta_title (metadata chunk),
      source_content = chunk_content chunk, relevanceScore = score, source_lastUpdated = now\<rparr>"
  by (simp add: source_of_def chunks_of_snoc chunks_of_empty)

lemma source_of_next:
  assumes "documentId chunk \<in> (\<lambda>(chunk, score). documentId chunk) ` set rs"
  shows "source_of now (rs @ [(chunk, score)]) (documentId chunk) =
     (source_of now rs (documentId chunk))
       \<lparr>source_content := source_content (source_of now rs (documentId chunk)) @ [10, 10] @ chunk_content chunk,
        relevanceScore := Math_max (relevanceScore (source_of now rs (documentId chunk))) score\<rparr>"
proof -
  from assms have ne: "chunks_of rs (documentId chunk) \<noteq> []"
    by (rule chunks_of_nonempty)
  then obtain r g where g: "chunks_of rs (documentId chunk) = r # g"
    by (cases "chunks_of rs (documentId chunk)") auto
  have "join [10, 10] (map (\<lambda>(chunk, score). chunk_content chunk) ((r # g) @ [(chunk, score)]))
        = join [10, 10] (map (\<lambda>(chunk, score). chunk_content chunk) (r # g)) @ [10, 10] @ chunk_content chunk"
    using join_snoc [of "map (\<lambda>(chunk, score). chunk_content chunk) (r # g)" "[10, 10]" "chunk_content chunk"]
    by simp
  then show ?thesis
    by (simp add: source_of_def chunks_of_snoc g)
qed

lemma group_fold:
  "foldl (group_step now) [] rs =
     map (\<lambda>d. (d, source_of now rs d)) (first_occurrences (map (\<lambda>(chunk, score). documentId chunk) rs))"
proof (induction rs rule: rev_induct)
  case Nil
  then show ?case by (simp add: first_occurrences_def)
next
  case (snoc r rs)
  obtain chunk score where r: "r = (chunk, score)" by (cases r)
  let ?ds = "first_occurrences (map (\<lambda>(chunk, score). documentId chunk) rs)"
  let ?d = "documentId chunk"
  have ds: "set ?ds = (\<lambda>(chunk, score). documentId chunk) ` set rs"
    by (simp add: set_first_occurrences)
  have step: "foldl (group_step now) [] (rs @ [r]) =
      group_step now (map (\<lambda>d. (d, source_of now rs d)) ?ds) (chunk, score)"
    by (simp add: snoc.IH r)
  show ?case
  proof (cases "?d \<in> set ?ds")
    case False
    then have "group_step now (map (\<lambda>d. (d, source_of now rs d)) ?ds) (chunk, score) =
        map (\<lambda>d. (d, source_of now rs d)) ?ds @
        [(?d, \<lparr>source_id = ?d, source_title = meta_title (metadata chunk),
               source_content = chunk_content chunk, relevanceScore = score, source_lastUpdated = now\<rparr>)]"
      by (simp add: group_step_def map_has_keys map_set_absent image_iff)
    also have "\<dots> = map (\<lambda>d. (d, source_of now (rs @ [r]) d)) (?ds @ [?d])"
    proof -
      have "source_of now (rs @ [r]) d = source_of now rs d" if "d \<in> set ?ds" for d
        using that False by (auto simp: r intro: source_of_other)
      moreover have "source_of now (rs @ [r]) ?d =
          \<lparr>source_id = ?d, source_title = meta_title (metadata chunk),
           source_content = chunk_content chunk, relevanceScore = score, source_lastUpdated = now\<rparr>"
        using False unfolding r ds by (rule source_of_first)
      ultimately show ?thesis by simp
    qed
    also have "\<dots> = map (\<lambda>d. (d, source_of now (rs @ [r]) d))
        (first_occurrences (map (\<lambda>(chunk, score). documentId chunk) (rs @ [r])))"
      using False by (simp add: first_occurrences_snoc r ds)
    finally show ?thesis using step by simp
  next
    case True
    then have "group_step now (map (\<lambda>d. (d, source_of now rs d)) ?ds) (chunk, score) =
        map (\<lambda>d. (d, if d = ?d then
            (source_of now rs ?d)
              \<lparr>source_content := source_content (source_of now rs ?d) @ [10, 10] @ chunk_content chunk,
               relevanceScore := Math_max (relevanceScore (source_of now rs ?d)) score\<rparr>
            else source_of now rs d)) ?ds"
      by (simp add: group_step_def map_has_keys map_get_present map_set_present distinct_first_occurrences)
    also have "\<dots> = map (\<lambda>d. (d, source_of now (rs @ [r]) d)) ?ds"
    proof -
      have "source_of now (rs @ [r]) d = source_of now rs d" if "d \<noteq> ?d" for d
        using that by (auto simp: r intro: source_of_other)
      moreover have "source_of now (rs @ [r]) ?d =
          (source_of now rs ?d)
              \<lparr>source_content := source_content (source_of now rs ?d) @ [10, 10] @ chunk_content chunk,
               relevanceScore := Math_max (relevanceScore (source_of now rs ?d)) score\<rparr>"
        using True unfolding r ds by (rule source_of_next)
      ultimately show ?thesis by simp
    qed
    also have "\<dots> = map (\<lambda>d. (d, source_of now (rs @ [r]) d))
        (first_occurrences (map (\<lambda>(chunk, score). documentId chunk) (rs @ [r])))"
      using True by (simp add: first_occurrences_snoc r ds)
    finally show ?thesis using step by simp
  qed
qed

lemma map_values_group_fold: "map_values (foldl (group_step now) [] rs) = grouped_spec now rs"
  by (simp add: group_fold map_values_def grouped_spec_def comp_def)

lemma foldl_Math_max_Fin: "foldl Math_max (Fin x) (map Fin ys) = Fin (Max (set (x # ys)))"
proof (induction ys arbitrary: x)
  case Nil
  then show ?case by simp
next
  case (Cons y ys)
  have "foldl Math_max (Fin x) (map Fin (y # ys)) = foldl Math_max (Fin (max x y)) (map Fin ys)"
    by simp
  also have "\<dots> = Fin (Max (set (max x y # ys)))" by (rule Cons.IH)
  also have "Max (set (max x y # ys)) = Max (set (x # y # ys))"
    by (cases "ys = []") (simp_all add: max.assoc)
  finally show ?case .
qed

lemma relevanceScore_source_of:
  assumes "map snd (chunks_of rs d) = map Fin (x # xs)"
  shows "relevanceScore (source_of now rs d) = Fin (Max (set (x # xs)))"
proof -
  from assms obtain r g where g: "chunks_of rs d = r # g" by (cases "chunks_of rs d") auto
  with assms have "snd r = Fin x" and "map snd g = map Fin xs" by simp_all
  then show ?thesis
    using foldl_Math_max_Fin [of x xs] by (simp add: source_of_def g)
qed

section \<open>Search\<close>

lemma length_generateMockEmbedding: "length (generateMockEmbedding text) = 1536"
  by (simp add: generateMockEmbedding_def Let_def)

lemma ids_grouped_spec:
  "map source_id (grouped_spec now rs) = first_occurrences (map (\<lambda>(chunk, score). documentId chunk) rs)"
  by (simp add: grouped_spec_def source_of_def Let_def comp_def)

lemma searchDocuments_grouped:
  "searchDocuments this remote now query topK =
     grouped_spec now (topResults this (embedding (generateEmbedding this remote query)) topK)"
  by (simp add: searchDocuments_def map_values_group_fold)

lemma topResults_subset:
  "set (topResults this qe topK) \<subseteq> set (score_chunks this qe)"
  unfolding topResults_def using set_slice set_array_sort by fast

lemma length_topResults:
  "0 \<le> topK \<Longrightarrow> real (length (topResults this qe topK)) \<le> topK"
  unfolding topResults_def by (rule length_slice_0)

lemma documentId_score_chunks:
  "(chunk, score) \<in> set (score_chunks this qe) \<Longrightarrow> chunk \<in> set (map_values (vectorStore this))"
  by (force simp: score_chunks_def map_values_def)

lemma searchDocuments_ids:
  "set (map source_id (searchDocuments this remote now query topK))
     \<subseteq> documentId ` set (map_values (vectorStore this))"
proof
  fix d assume "d \<in> set (map source_id (searchDocuments this remote now query topK))"
  then obtain chunk score where
    "(chunk, score) \<in> set (topResults this (embedding (generateEmbedding this remote query)) topK)"
    and d: "d = documentId chunk"
    by (auto simp: searchDocuments_grouped ids_grouped_spec set_first_occurrences)
  then have "chunk \<in> set (map_values (vectorStore this))"
    using topResults_subset documentId_score_chunks by blast
  with d show "d \<in> documentId ` set (map_values (vectorStore this))" by simp
qed

lemma length_searchDocuments:
  "length (searchDocuments this remote now query topK)
     \<le> length (topResults this (embedding (generateEmbedding this remote query)) topK)"
  using length_first_occurrences [of "map (\<lambda>(chunk, score). documentId chunk)
      (topResults this (embedding (generateEmbedding this remote query)) topK)"]
  by (simp add: searchDocuments_grouped grouped_spec_def)

lemma searchDocuments_empty:
  "vectorStore this = [] \<Longrightarrow> searchDocuments this remote now query topK = []"
  by (simp add: searchDocuments_def topResults_def score_chunks_def array_sort_def slice_def map_values_def)

text \<open>The example store, scored against the query vector \<open>(1, 0)\<close> and ranked.\<close>

lemma example_embedding: "embedding (generateEmbedding example_service example_answer q) = [1, 0]"
  by (simp add: generateEmbedding_def example_answer_def example_service_def js_def)

lemma example_scores:
  "score_chunks example_service [1, 0] =
     [(example_chunk (js ''a0'') (js ''a'') (js ''x'') [0, 1], Fin 0),
      (example_chunk (js ''b0'') (js ''b'') (js ''y'') [1, 0], Fin 1),
      (example_chunk (js ''a1'') (js ''a'') (js ''z'') [- 1, 0], Fin (- 1))]"
  by (simp add: score_chunks_def example_service_def cosineSimilarity_def example_chunk_def fl_small)

lemma example_ranked:
  "array_sort (\<lambda>a b. num_sub (snd b) (snd a)) (score_chunks example_service [1, 0]) =
     [(example_chunk (js ''b0'') (js ''b'') (js ''y'') [1, 0], Fin 1),
      (example_chunk (js ''a0'') (js ''a'') (js ''x'') [0, 1], Fin 0),
      (example_chunk (js ''a1'') (js ''a'') (js ''z'') [- 1, 0], Fin (- 1))]"
  unfolding example_scores by (simp add: array_sort_def num_sub_def fl_small)

lemma example_top:
  "topResults example_service [1, 0] 5 =
     [(example_chunk (js ''b0'') (js ''b'') (js ''y'') [1, 0], Fin 1),
      (example_chunk (js ''a0'') (js ''a'') (js ''x'') [0, 1], Fin 0),
      (example_chunk (js ''a1'') (js ''a'') (js ''z'') [- 1, 0], Fin (- 1))]"
  and example_top_negative:
  "topResults example_service [1, 0] (- 1) =
     [(example_chunk (js ''b0'') (js ''b'') (js ''y'') [1, 0], Fin 1),
      (example_chunk (js ''a0'') (js ''a'') (js ''x'') [0, 1], Fin 0)]"
  unfolding topResults_def example_ranked
  by (simp_all add: slice_def ToIntegerOrInfinity_def relative_index_def)

lemmas group_defs = group_step_def map_has_def map_get_def map_values_def example_chunk_def js_def

lemma example_search:
  "searchDocuments example_service example_answer 7 (js ''q'') 5 =
     [\<lparr>source_id = js ''b'', source_title = js ''b'', source_content = js ''y'',
       relevanceScore = Fin 1, source_lastUpdated = 7\<rparr>,
      \<lparr>source_id = js ''a'', source_title = js ''a'', source_content = js ''x'' @ [10, 10] @ js ''z'',
       relevanceScore = Fin 0, source_lastUpdated = 7\<rparr>]"
  unfolding searchDocuments_def example_embedding example_top
  by (simp add: group_defs)

text \<open>
  Claim C1, as the code has it. For every store, query and \<open>topK\<close> that is not negative,
  \<open>searchDocuments\<close> returns at most \<open>topK\<close> records; for every \<open>topK\<close>, each returned
  id is the \<open>documentId\<close> of a chunk of the store, and on an empty store the result is the
  empty sequence (a value, not an error).
\<close>

theorem searchDocuments_bounded:
  "(0 \<le> topK \<longrightarrow> real (length (searchDocuments this remote now query topK)) \<le> topK)
   \<and> set (map source_id (searchDocuments this remote now query topK))
       \<subseteq> documentId ` set (map_values (vectorStore this))
   \<and> (vectorStore this = [] \<longrightarrow> searchDocuments this remote now query topK = [])"
proof (intro conjI impI)
  assume k: "0 \<le> topK"
  have "real (length (searchDocuments this remote now query topK))
      \<le> real (length (topResults this (embedding (generateEmbedding this remote query)) topK))"
    using length_searchDocuments by simp
  also have "\<dots> \<le> topK" using k by (rule length_topResults)
  finally show "real (length (searchDocuments this remote now query topK)) \<le> topK" .
next
  show "set (map source_id (searchDocuments this remote now query topK))
       \<subseteq> documentId ` set (map_values (vectorStore this))"
    by (rule searchDocuments_ids)
next
  assume "vectorStore this = []"
  then show "searchDocuments this remote now query topK = []" by (rule searchDocuments_empty)
qed

text \<open>
  The bound at the example store of three chunks with \<open>topK = 1\<close>, and the empty store.
\<close>

theorem searchDocuments_bounded_witness:
  "(0::real) \<le> 1
   \<and> real (length (searchDocuments example_service example_answer 7 (js ''q'') 1)) \<le> 1
   \<and> vectorStore (example_service\<lparr>vectorStore := []\<rparr>) = []
   \<and> searchDocuments (example_service\<lparr>vectorStore := []\<rparr>) example_answer 7 (js ''q'') 1 = []"
  using searchDocuments_bounded [of 1 example_service example_answer 7 "js ''q''"]
    searchDocuments_bounded [of 1 "example_service\<lparr>vectorStore := []\<rparr>" example_answer 7 "js ''q''"]
  by simp

text \<open>
  Claim C1 as stated fails for a negative \<open>topK\<close>: \<open>slice(0, -1)\<close> drops the last ranked
  pair only, so the example store of three chunks yields two records for \<open>topK = -1\<close>.
\<close>

theorem searchDocuments_negative_topK:
  "searchDocuments example_service example_answer 7 (js ''q'') (- 1) =
     [\<lparr>source_id = js ''b'', source_title = js ''b'', source_content = js ''y'',
       relevanceScore = Fin 1, source_lastUpdated = 7\<rparr>,
      \<lparr>source_id = js ''a'', source_title = js ''a'', source_content = js ''x'',
       relevanceScore = Fin 0, source_lastUpdated = 7\<rparr>]
   \<and> \<not> real (length (searchDocuments example_service example_answer 7 (js ''q'') (- 1))) \<le> - 1"
  unfolding searchDocuments_def example_embedding example_top_negative
  by (simp add: group_defs)

text \<open>
  Claim C2. After \<open>removeDocument\<close>, also when \<open>deleteDocument\<close> calls it, no chunk of the
  store has the removed \<open>documentId\<close>, and a search that follows returns no record with
  that id.
\<close>

theorem removeDocument_sweeps:
  "docId \<notin> documentId ` set (map_values (vectorStore (removeDocument this docId)))
   \<and> docId \<notin> source_id ` set (searchDocuments (removeDocument this docId) remote now query topK)
   \<and> docId \<notin> documentId ` set (map_values (vectorStore (aiService (fst (deleteDocument s docId)))))
   \<and> docId \<notin> source_id ` set (searchDocuments (aiService (fst (deleteDocument s docId))) remote now query topK)"
proof -
  have swept: "docId \<notin> documentId ` set (map_values (vectorStore (removeDocument t docId)))" for t
  proof
    assume "docId \<in> documentId ` set (map_values (vectorStore (removeDocument t docId)))"
    then obtain key chunk where "(key, chunk) \<in> set (vectorStore (removeDocument t docId))"
      and "documentId chunk = docId"
      by (auto simp: map_values_def)
    then show False using removeDocument_no_chunk by blast
  qed
  have search: "docId \<notin> source_id ` set (searchDocuments (removeDocument t docId) remote now query topK)" for t
    using searchDocuments_ids [of "removeDocument t docId" remote now query topK] swept [of t]
    by auto
  have "aiService (fst (deleteDocument s docId)) = removeDocument (aiService s) docId"
    by (simp add: deleteDocument_def)
  with swept search show ?thesis by simp
qed

text \<open>Removing document \<open>a\<close> from the example store leaves the one chunk of \<open>b\<close>.\<close>

theorem removeDocument_sweeps_witness:
  "map documentId (map_values (vectorStore (removeDocument example_service (js ''a'')))) = [js ''b'']
   \<and> js ''a'' \<notin> source_id ` set (searchDocuments (removeDocument example_service (js ''a''))
                                      example_answer 7 (js ''q'') 5)"
  using removeDocument_sweeps [of "js ''a''" example_service example_answer 7 "js ''q''" 5]
  by (simp add: removeDocument_def map_delete_def example_service_def example_chunk_def map_values_def js_def)

text \<open>
  Claim C4. The records that \<open>searchDocuments\<close> returns are the ones the specification
  describes for the ranked top-K pairs: one record for each document, in the order in
  which the documents first occur among the pairs; the first pair of a document gives the
  title, the text and the score, each later pair of the same document appends its text
  after a blank line and replaces the score by \<open>Math.max\<close> of the old score and its own;
  where the scores of a document are numbers (no \<open>NaN\<close>, no infinity) the score of its
  record is their maximum.
\<close>

theorem searchDocuments_groups:
  "searchDocuments this remote now query topK =
     grouped_spec now (topResults this (embedding (generateEmbedding this remote query)) topK)
   \<and> map source_id (searchDocuments this remote now query topK) =
     first_occurrences (map (\<lambda>(chunk, score). documentId chunk)
       (topResults this (embedding (generateEmbedding this remote query)) topK))
   \<and> (map snd (chunks_of (topResults this (embedding (generateEmbedding this remote query)) topK) d)
         = map Fin (x # xs) \<longrightarrow>
       relevanceScore (source_of now (topResults this (embedding (generateEmbedding this remote query)) topK) d)
         = Fin (Max (set (x # xs))))"
  using relevanceScore_source_of by (simp add: searchDocuments_grouped ids_grouped_spec)

text \<open>
  At the example store the ranked pairs are \<open>b0\<close> (score 1), \<open>a0\<close> (score 0), \<open>a1\<close>
  (score -1): two records, \<open>b\<close> first, and the record of \<open>a\<close> holds both texts and the
  larger of its two scores.
\<close>

theorem searchDocuments_groups_witness:
  "searchDocuments example_service example_answer 7 (js ''q'') 5 =
     [\<lparr>source_id = js ''b'', source_title = js ''b'', source_content = js ''y'',
       relevanceScore = Fin 1, source_lastUpdated = 7\<rparr>,
      \<lparr>source_id = js ''a'', source_title = js ''a'', source_content = js ''x'' @ [10, 10] @ js ''z'',
       relevanceScore = Fin 0, source_lastUpdated = 7\<rparr>]
   \<and> grouped_spec 7 (topResults example_service [1, 0] 5)
     = searchDocuments example_service example_answer 7 (js ''q'') 5
   \<and> map snd (chunks_of (topResults example_service [1, 0] 5) (js ''a'')) = map Fin [0, - 1]
   \<and> relevanceScore (source_of 7 (topResults example_service [1, 0] 5) (js ''a'')) = Fin 0"
  using searchDocuments_groups [of example_service example_answer 7 "js ''q''" 5 "js ''a''" 0 "[- 1]"]
    example_search
  unfolding example_embedding example_top
  by (simp add: chunks_of_def example_chunk_def js_def)

section \<open>The fallback embedding\<close>

lemma seed_sum: "foldl (\<lambda>acc char. acc + char) a cs = a + sum_list (cs :: nat list)"
  by (induction cs arbitrary: a) simp_all

lemma generateMockEmbedding_eq:
  "generateMockEmbedding text =
     map (\<lambda>i. sin (real (sum_list text) * (real i + 1)) * 0.5 + 0.5) [0..<1536]"
  by (simp add: generateMockEmbedding_def seed_sum)

lemma mock_component_range: "0 \<le> sin x * 0.5 + 0.5 \<and> sin x * 0.5 + 0.5 \<le> (1::real)"
  using sin_ge_minus_one [of x] sin_le_one [of x] by linarith

text \<open>
  Claim C5. With no API key, \<open>generateEmbedding\<close> returns the fallback whatever the text and
  whatever the network would answer: 1536 components, component \<open>i\<close> being
  \<open>sin(seed \<times> (i+1)) \<times> 0.5 + 0.5\<close> for the sum \<open>seed\<close> of the code units, each between 0
  and 1, with the token count \<open>ceil(length / 4)\<close>. (The sine and the products are the exact
  real ones.)
\<close>

theorem generateEmbedding_fallback:
  assumes "apiKey this = []"
  shows "generateEmbedding this remote text =
           \<lparr>embedding = map (\<lambda>i. sin (real (sum_list text) * (real i + 1)) * 0.5 + 0.5) [0..<1536],
            tokenCount = \<lceil>real (length text) / 4\<rceil>\<rparr>
         \<and> length (embedding (generateEmbedding this remote text)) = 1536
         \<and> (\<forall>x \<in> set (embedding (generateEmbedding this remote text)). 0 \<le> x \<and> x \<le> 1)
         \<and> generateEmbedding this remote' text = generateEmbedding this remote text"
proof -
  have eq: "generateEmbedding this r text =
           \<lparr>embedding = map (\<lambda>i. sin (real (sum_list text) * (real i + 1)) * 0.5 + 0.5) [0..<1536],
            tokenCount = \<lceil>real (length text) / 4\<rceil>\<rparr>" for r
    using assms by (simp add: generateEmbedding_def generateMockEmbedding_eq)
  have "0 \<le> x \<and> x \<le> 1"
    if "x \<in> set (map (\<lambda>i. sin (real (sum_list text) * (real i + 1)) * 0.5 + 0.5) [0..<1536])" for x
  proof -
    from that obtain i where "x = sin (real (sum_list text) * (real i + 1)) * 0.5 + 0.5" by auto
    then show ?thesis using mock_component_range by simp
  qed
  then show ?thesis by (simp only: eq) simp
qed

text \<open>The text \<open>hello\<close> of five code units: seed 532, two tokens, 1536 components.\<close>

theorem generateEmbedding_fallback_witness:
  "apiKey \<lparr>apiKey = [], vectorStore = []\<rparr> = []
   \<and> tokenCount (generateEmbedding \<lparr>apiKey = [], vectorStore = []\<rparr> None (js ''hello'')) = 2
   \<and> length (embedding (generateEmbedding \<lparr>apiKey = [], vectorStore = []\<rparr> None (js ''hello''))) = 1536
   \<and> sum_list (js ''hello'') = 532"
  using generateEmbedding_fallback [of "\<lparr>apiKey = [], vectorStore = []\<rparr>" None "js ''hello''" None]
  by (simp add: js_def)

text \<open>
  Claim C10. The fallback embedding depends on the text through the sum of its code units
  only: two texts with the same sum get the same 1536 components, and with no API key the
  retriever scores every stored chunk the same for both and returns the same records.
\<close>

theorem generateMockEmbedding_seed_only:
  assumes "sum_list text1 = sum_list text2"
  shows "generateMockEmbedding text1 = generateMockEmbedding text2
         \<and> length (generateMockEmbedding text1) = 1536
         \<and> (apiKey this = [] \<longrightarrow>
              score_chunks this (embedding (generateEmbedding this remote1 text1))
                = score_chunks this (embedding (generateEmbedding this remote2 text2))
              \<and> searchDocuments this remote1 now text1 topK = searchDocuments this remote2 now text2 topK)"
proof -
  have m: "generateMockEmbedding text1 = generateMockEmbedding text2"
    using assms by (simp add: generateMockEmbedding_eq)
  have "embedding (generateEmbedding this remote1 text1) = embedding (generateEmbedding this remote2 text2)"
    if "apiKey this = []"
    using that m by (simp add: generateEmbedding_def)
  then show ?thesis
    using m by (simp add: length_generateMockEmbedding searchDocuments_def)
qed

text \<open>The texts \<open>ab\<close> and \<open>ba\<close>, a permutation of one another.\<close>

theorem generateMockEmbedding_seed_only_witness:
  "sum_list (js ''ab'') = sum_list (js ''ba'')
   \<and> js ''ab'' \<noteq> js ''ba''
   \<and> generateMockEmbedding (js ''ab'') = generateMockEmbedding (js ''ba'')
   \<and> searchDocuments (example_service\<lparr>apiKey := []\<rparr>) None 7 (js ''ab'') 5
       = searchDocuments (example_service\<lparr>apiKey := []\<rparr>) None 7 (js ''ba'') 5"
  using generateMockEmbedding_seed_only [of "js ''ab''" "js ''ba''" "example_service\<lparr>apiKey := []\<rparr>" None None 7 5]
  by (simp add: js_def)

section \<open>The chunker\<close>

lemma trim_empty_iff: "trim s = [] \<longleftrightarrow> (\<forall>c \<in> set s. isWhiteSpace c)"
proof -
  have "trim s = [] \<longleftrightarrow> (\<forall>c \<in> set (dropWhile isWhiteSpace s). isWhiteSpace c)"
    by (simp add: trim_def dropWhile_eq_Nil_conv)
  also have "\<dots> \<longleftrightarrow> dropWhile isWhiteSpace s = []"
  proof
    assume a: "\<forall>c \<in> set (dropWhile isWhiteSpace s). isWhiteSpace c"
    show "dropWhile isWhiteSpace s = []"
    proof (rule ccontr)
      assume ne: "dropWhile isWhiteSpace s \<noteq> []"
      then have "\<not> isWhiteSpace (hd (dropWhile isWhiteSpace s))" by (rule hd_dropWhile)
      moreover have "hd (dropWhile isWhiteSpace s) \<in> set (dropWhile isWhiteSpace s)"
        using ne by (rule hd_in_set)
      ultimately show False using a by blast
    qed
  next
    assume e: "dropWhile isWhiteSpace s = []"
    show "\<forall>c \<in> set (dropWhile isWhiteSpace s). isWhiteSpace c" unfolding e by simp
  qed
  also have "\<dots> \<longleftrightarrow> (\<forall>c \<in> set s. isWhiteSpace c)"
    by (simp add: dropWhile_eq_Nil_conv)
  finally show ?thesis .
qed

lemma full_stop_not_space: "\<not> isWhiteSpace 46"
  by (simp add: isWhiteSpace_def)

lemma trim_with_full_stop: "46 \<in> set s \<Longrightarrow> trim s \<noteq> []"
  using full_stop_not_space by (auto simp: trim_empty_iff)

lemma chunk_step_inv:
  assumes "chunker_inv st"
  shows "chunker_inv (chunk_step chunkSize overlap st sentence)
         \<and> 46 \<in> set (snd (chunk_step chunkSize overlap st sentence))"
proof -
  obtain chunks cur where st: "st = (chunks, cur)" by (cases st)
  from assms have a: "\<forall>c \<in> set chunks. c \<noteq> []" and b: "cur = [] \<or> 46 \<in> set cur"
    by (simp_all add: chunker_inv_def st)
  show ?thesis
  proof (cases "chunkSize < real (length (cur @ sentence)) \<and> cur \<noteq> []")
    case True
    then have "trim cur \<noteq> []" using b trim_with_full_stop by blast
    with True a show ?thesis by (simp add: chunker_inv_def chunk_step_def st)
  next
    case False
    with a show ?thesis by (auto simp: chunker_inv_def chunk_step_def st)
  qed
qed

lemma chunk_loop_inv:
  "chunker_inv st \<Longrightarrow> chunker_inv (foldl (chunk_step chunkSize overlap) st ss)"
  by (induction ss arbitrary: st) (simp_all add: chunk_step_inv)

lemma chunk_loop_full_stop:
  "chunker_inv st \<Longrightarrow> ss \<noteq> [] \<Longrightarrow> 46 \<in> set (snd (foldl (chunk_step chunkSize overlap) st ss))"
proof (induction ss arbitrary: st rule: rev_induct)
  case Nil
  then show ?case by simp
next
  case (snoc x xs)
  have "chunker_inv (foldl (chunk_step chunkSize overlap) st xs)"
    using snoc.prems(1) by (rule chunk_loop_inv)
  then show ?case using chunk_step_inv by simp
qed

lemma splitIntoChunks_no_sentence:
  "sentences_of txt = [] \<Longrightarrow> splitIntoChunks txt chunkSize overlap = [txt]"
  by (simp add: splitIntoChunks_def trim_def)

lemma splitIntoChunks_sentences:
  assumes "sentences_of txt \<noteq> []"
  shows "splitIntoChunks txt chunkSize overlap \<noteq> []
         \<and> (\<forall>c \<in> set (splitIntoChunks txt chunkSize overlap). c \<noteq> [])"
proof -
  obtain chunks cur where f:
    "foldl (chunk_step chunkSize overlap) ([], []) (sentences_of txt) = (chunks, cur)"
    by (cases "foldl (chunk_step chunkSize overlap) ([], []) (sentences_of txt)")
  have i: "chunker_inv ([], [])" by (simp add: chunker_inv_def)
  have "chunker_inv (chunks, cur)"
    using chunk_loop_inv [OF i, of chunkSize overlap "sentences_of txt"] by (simp add: f)
  then have a: "\<forall>c \<in> set chunks. c \<noteq> []" by (simp add: chunker_inv_def)
  have "46 \<in> set cur"
    using chunk_loop_full_stop [OF i assms, of chunkSize overlap] by (simp add: f)
  then have t: "trim cur \<noteq> []" by (rule trim_with_full_stop)
  have "splitIntoChunks txt chunkSize overlap = chunks @ [trim cur]"
    using t by (simp add: splitIntoChunks_def f)
  with a t show ?thesis by simp
qed

lemmas chunker_defs = splitIntoChunks_def sentences_of_def isTerminator_def trim_def isWhiteSpace_def
  chunk_step_def overlap_words_def split_string_def slice_def ToIntegerOrInfinity_def
  relative_index_def js_def

text \<open>
  Claim C7. For a text that is not empty, \<open>splitIntoChunks\<close> returns at least one chunk
  and no chunk is the empty string; when the text holds no sentence (the loop produces no
  chunk) the result is the text itself as the only chunk.
\<close>

theorem splitIntoChunks_nonempty:
  assumes "txt \<noteq> []"
  shows "splitIntoChunks txt chunkSize overlap \<noteq> []
         \<and> (\<forall>c \<in> set (splitIntoChunks txt chunkSize overlap). c \<noteq> [])
         \<and> (sentences_of txt = [] \<longrightarrow> splitIntoChunks txt chunkSize overlap = [txt])"
proof (cases "sentences_of txt = []")
  case True
  then have "splitIntoChunks txt chunkSize overlap = [txt]" by (rule splitIntoChunks_no_sentence)
  with assms show ?thesis by simp
next
  case False
  then show ?thesis using splitIntoChunks_sentences by simp
qed

text \<open>
  Two sentences that fit one chunk of 500 code units, and a text of terminators only.
\<close>

theorem splitIntoChunks_nonempty_witness:
  "js ''aaa. bbb.'' \<noteq> []
   \<and> splitIntoChunks (js ''aaa. bbb.'') 500 50 = [js ''aaa.  bbb.'']
   \<and> js ''?!'' \<noteq> [] \<and> sentences_of (js ''?!'') = []
   \<and> splitIntoChunks (js ''?!'') 500 50 = [js ''?!'']"
  using splitIntoChunks_nonempty [of "js ''aaa. bbb.''" 500 50]
    splitIntoChunks_nonempty [of "js ''?!''" 500 50]
  by (simp add: chunker_defs)

lemma slice_from_end:
  assumes "1 \<le> k"
  shows "slice xs (- k) None = drop (length xs - nat \<lfloor>k\<rfloor>) xs"
proof -
  have "1 \<le> \<lfloor>k\<rfloor>" using assms by linarith
  then have "ToIntegerOrInfinity (- k) = - \<lfloor>k\<rfloor>" and "- \<lfloor>k\<rfloor> < 0"
    using assms by (simp_all add: ToIntegerOrInfinity_def)
  then have "relative_index (length xs) (ToIntegerOrInfinity (- k)) = length xs - nat \<lfloor>k\<rfloor>"
    by (simp add: relative_index_def) linarith
  then show ?thesis by (simp add: slice_def)
qed

lemma overlap_words_last:
  assumes "10 \<le> overlap"
  shows "overlap_words currentChunk overlap =
           drop (length (split_string currentChunk 32) - nat \<lfloor>overlap / 10\<rfloor>) (split_string currentChunk 32)"
  using slice_from_end [of "overlap / 10" "split_string currentChunk 32"] assms
  by (simp add: overlap_words_def)

lemma overlap_words_all:
  assumes "0 \<le> overlap" and "overlap < 10"
  shows "overlap_words currentChunk overlap = split_string currentChunk 32"
proof -
  have "\<lfloor>overlap / 10\<rfloor> = 0" using assms by (simp add: floor_eq_iff)
  then have "ToIntegerOrInfinity (- overlap / 10) = 0"
    using assms by (auto simp: ToIntegerOrInfinity_def)
  then show ?thesis by (simp add: overlap_words_def slice_def relative_index_def)
qed

text \<open>
  Claim C6, as the code has it. A turn of the loop closes a chunk exactly when the buffer
  with the next sentence is longer than \<open>chunkSize\<close> and the buffer is not empty; the
  closed chunk is the trimmed buffer, and the next buffer starts with the kept pieces of
  \<open>currentChunk.split(' ')\<close> joined by spaces and followed by a space. For an overlap of 10
  or more the kept pieces are the last \<open>floor(overlap / 10)\<close> pieces, or all of them when
  there are fewer.
\<close>

theorem chunk_step_closes:
  "chunk_step chunkSize overlap (chunks, currentChunk) sentence =
     (if chunkSize < real (length currentChunk + length sentence) \<and> currentChunk \<noteq> [] then
        (chunks @ [trim currentChunk],
         join [32] (overlap_words currentChunk overlap) @ [32] @ sentence @ [46, 32])
      else (chunks, currentChunk @ sentence @ [46, 32]))
   \<and> (10 \<le> overlap \<longrightarrow>
        overlap_words currentChunk overlap =
          drop (length (split_string currentChunk 32) - nat \<lfloor>overlap / 10\<rfloor>) (split_string currentChunk 32)
        \<and> length (overlap_words currentChunk overlap) =
          min (nat \<lfloor>overlap / 10\<rfloor>) (length (split_string currentChunk 32)))"
proof (intro conjI impI)
  show "chunk_step chunkSize overlap (chunks, currentChunk) sentence =
     (if chunkSize < real (length currentChunk + length sentence) \<and> currentChunk \<noteq> [] then
        (chunks @ [trim currentChunk],
         join [32] (overlap_words currentChunk overlap) @ [32] @ sentence @ [46, 32])
      else (chunks, currentChunk @ sentence @ [46, 32]))"
    by (simp add: chunk_step_def)
next
  assume o: "10 \<le> overlap"
  then show l: "overlap_words currentChunk overlap =
      drop (length (split_string currentChunk 32) - nat \<lfloor>overlap / 10\<rfloor>) (split_string currentChunk 32)"
    by (rule overlap_words_last)
  show "length (overlap_words currentChunk overlap) =
      min (nat \<lfloor>overlap / 10\<rfloor>) (length (split_string currentChunk 32))"
    unfolding l by simp
qed

text \<open>
  A buffer of five pieces (the last one empty, after the final space) and an overlap of 20.
\<close>

theorem chunk_step_closes_witness:
  "(10::real) \<le> 20
   \<and> chunk_step 10 20 ([], js ''a b c d. '') (js '' e'') =
       ([js ''a b c d.''], js ''d. '' @ js '' '' @ js '' e. '')
   \<and> overlap_words (js ''a b c d. '') 20 = [js ''d.'', []]"
  using chunk_step_closes [of 10 20 "[]" "js ''a b c d. ''" "js '' e''"]
  by (simp add: chunker_defs)

text \<open>
  Claim C6 as stated fails. With the default overlap of 50 the closed buffer \<open>aaa. \<close> has
  two pieces only and both are kept, not five. With an overlap of 0 the start of the slice
  is \<open>-0\<close>, which is the whole array: both pieces are kept again, not none, and the second
  chunk repeats the first.
\<close>

theorem overlap_words_counterexample:
  "splitIntoChunks (js ''aaa. bbb.'') 5 50 = [js ''aaa.'', js ''aaa.   bbb.'']
   \<and> overlap_words (js ''aaa. '') 50 = [js ''aaa.'', []]
   \<and> length (overlap_words (js ''aaa. '') 50) \<noteq> nat \<lfloor>50 / 10 :: real\<rfloor>
   \<and> splitIntoChunks (js ''aaa. bbb.'') 5 0 = [js ''aaa.'', js ''aaa.   bbb.'']
   \<and> overlap_words (js ''aaa. '') 0 = [js ''aaa.'', []]
   \<and> length (overlap_words (js ''aaa. '') 0) \<noteq> nat \<lfloor>0 / 10 :: real\<rfloor>"
  by (simp add: chunker_defs)

section \<open>The document service\<close>

lemma map_get_map_set: "map_get (map_set m k v) k' = (if k' = k then Some v else map_get m k')"
  by (induction m) (auto simp: map_get_def)

lemma map_delete_absent: "map_get m k = None \<Longrightarrow> map_delete m k = m"
proof -
  assume "map_get m k = None"
  then have "k \<notin> fst ` set m" by (simp add: map_get_def map_of_eq_None_iff)
  then have "\<forall>x \<in> set m. (case x of (k', v) \<Rightarrow> k' \<noteq> k)" by force
  then show ?thesis unfolding map_delete_def by (simp add: filter_id_conv)
qed

lemma record_failure_recorded:
  "failed_document (fst (record_failure s key document e)) key (error_message e)
   \<and> snd (record_failure s key document e) = Inl e
   \<and> (\<forall>k. k \<noteq> key \<longrightarrow> map_get (documents (fst (record_failure s key document e))) k = map_get (documents s) k)"
  by (simp add: record_failure_def failed_document_def map_get_map_set)

lemma uploadFile_failure:
  assumes "snd (uploadFile s w file) = Inl e"
  shows "failed_document (fst (uploadFile s w file)) (new_id w) (error_message e)"
  using assms record_failure_recorded
  by (auto simp: uploadFile_def Let_def split: sum.splits prod.splits option.splits)

lemma uploadFile_others:
  assumes "k \<noteq> new_id w"
  shows "map_get (documents (fst (uploadFile s w file))) k = map_get (documents s) k"
  using assms
  by (auto simp: uploadFile_def Let_def record_failure_def map_get_map_set split: sum.splits prod.splits option.splits)

lemma uploadFile_extraction_fails:
  "extractContent w file = Inl e \<Longrightarrow> snd (uploadFile s w file) = Inl e"
  by (simp add: uploadFile_def Let_def record_failure_def split: sum.splits)

lemma uploadFile_indexing_fails:
  "extractContent w file = Inr content \<Longrightarrow>
   fst (indexDocument (aiService s) (indexing w)
          \<lparr>req_id = new_id w, req_title = file_name file, req_content = content,
           req_fileType = getFileType file\<rparr>) = Some e \<Longrightarrow>
   snd (uploadFile s w file) = Inl e"
  by (auto simp: uploadFile_def Let_def record_failure_def split: prod.splits option.splits)

lemma updateDocument_failure:
  assumes "map_get (documents s) key = Some d0" and "snd (updateDocument s w key content) = Inl e"
  shows "failed_document (fst (updateDocument s w key content)) key (error_message e)"
  using assms record_failure_recorded
  by (auto simp: updateDocument_def Let_def split: sum.splits prod.splits option.splits)

lemma updateDocument_others:
  assumes "k \<noteq> key"
  shows "map_get (documents (fst (updateDocument s w key content))) k = map_get (documents s) k"
  using assms
  by (auto simp: updateDocument_def Let_def record_failure_def map_get_map_set split: sum.splits prod.splits option.splits)

lemma updateDocument_indexing_fails:
  "map_get (documents s) key = Some d0 \<Longrightarrow>
   fst (indexDocument (removeDocument (aiService s) key) (indexing w)
          \<lparr>req_id = doc_id d0, req_title = doc_title d0, req_content = content,
           req_fileType = doc_fileType d0\<rparr>) = Some e \<Longrightarrow>
   snd (updateDocument s w key content) = Inl e"
  by (auto simp: updateDocument_def Let_def record_failure_def split: prod.splits option.splits)

lemma updateDocument_not_found:
  "map_get (documents s) key = None \<Longrightarrow>
   updateDocument s w key content = (s, Inl (Error (js ''Document not found'')))"
  by (simp add: updateDocument_def)

lemma deleteDocument_returns: "snd (deleteDocument s key) = Inr ()"
  by (simp add: deleteDocument_def)

lemma deleteDocument_absent:
  "map_get (documents s) key = None \<Longrightarrow> documents (fst (deleteDocument s key)) = documents s"
  by (simp add: deleteDocument_def map_delete_absent)

lemma getAllDocuments_empty: "documents s = [] \<Longrightarrow> getAllDocuments s = []"
  by (simp add: getAllDocuments_def map_values_def array_sort_def)

lemma searchByTitle_empty: "documents s = [] \<Longrightarrow> searchByTitle s query = []"
  by (simp add: searchByTitle_def getAllDocuments_empty)

lemmas service_defs = uploadFile_def updateDocument_def deleteDocument_def record_failure_def
  failed_document_def extractContent_def getFileType_def toLowerCase_def split_string_def
  error_message_def indexDocument_def map_get_def example_world_def example_services_def
  example_document_def example_file_def js_def Let_def

lemma ex_chunks: "splitIntoChunks (js ''New.'') 500 50 = [js ''New.'']"
  by (simp add: chunker_defs)

lemma ex_extract: "extractContent example_world example_file = Inl (Error (js ''unreadable''))"
  by (simp add: service_defs)

lemma ex_upload: "snd (uploadFile example_services example_world example_file) = Inl (Error (js ''unreadable''))"
  by (simp add: service_defs)

lemma ex_update: "snd (updateDocument example_services example_world (js ''d1'') (js ''New.'')) = Inl NonError"
  using ex_chunks by (simp add: service_defs)

lemma ex_chunks_hi: "splitIntoChunks (js ''Hi.'') 500 50 = [js ''Hi.'']"
  by (simp add: chunker_defs)

lemma ex_extract_readable: "extractContent example_world_readable example_file = Inr (js ''Hi.'')"
  by (simp add: service_defs example_world_readable_def)

lemma ex_index_upload:
  "fst (indexDocument (aiService example_services) (indexing example_world_readable)
          \<lparr>req_id = new_id example_world_readable, req_title = file_name example_file,
           req_content = js ''Hi.'', req_fileType = getFileType example_file\<rparr>) = Some NonError"
  using ex_chunks_hi by (simp add: indexDocument_def example_world_readable_def example_world_def)

lemma ex_index_update:
  "fst (indexDocument (removeDocument (aiService example_services) (js ''d1'')) (indexing example_world)
          \<lparr>req_id = doc_id example_document, req_title = doc_title example_document,
           req_content = js ''New.'', req_fileType = doc_fileType example_document\<rparr>) = Some NonError"
  using ex_chunks by (simp add: indexDocument_def example_world_def)

text \<open>
  Claim C8. When the extraction or the indexing of an upload fails, and when the indexing of
  an update fails, the operation ends with the thrown value handed on to its caller, and in
  the state it leaves the document is present with status \<open>error\<close> and the message of the
  failure: the message of the thrown \<open>Error\<close>, or \<open>Unknown error\<close> for a thrown value that
  is no \<open>Error\<close>. Every other document is as before. The service itself goes on: the
  operation returns a state for every input.
\<close>

theorem failure_recorded:
  "(snd (uploadFile s w file) = Inl (Error message) \<longrightarrow>
      failed_document (fst (uploadFile s w file)) (new_id w) message)
   \<and> (snd (uploadFile s w file) = Inl NonError \<longrightarrow>
      failed_document (fst (uploadFile s w file)) (new_id w) (js ''Unknown error''))
   \<and> (extractContent w file = Inl e \<longrightarrow> snd (uploadFile s w file) = Inl e)
   \<and> (extractContent w file = Inr content
        \<and> fst (indexDocument (aiService s) (indexing w)
                 \<lparr>req_id = new_id w, req_title = file_name file, req_content = content,
                  req_fileType = getFileType file\<rparr>) = Some e \<longrightarrow>
        snd (uploadFile s w file) = Inl e)
   \<and> (k \<noteq> new_id w \<longrightarrow>
        map_get (documents (fst (uploadFile s w file))) k = map_get (documents s) k)
   \<and> (map_get (documents s) key = Some d0
        \<and> snd (updateDocument s w key content) = Inl (Error message) \<longrightarrow>
        failed_document (fst (updateDocument s w key content)) key message)
   \<and> (map_get (documents s) key = Some d0
        \<and> snd (updateDocument s w key content) = Inl NonError \<longrightarrow>
        failed_document (fst (updateDocument s w key content)) key (js ''Unknown error''))
   \<and> (map_get (documents s) key = Some d0
        \<and> fst (indexDocument (removeDocument (aiService s) key) (indexing w)
                 \<lparr>req_id = doc_id d0, req_title = doc_title d0, req_content = content,
                  req_fileType = doc_fileType d0\<rparr>) = Some e \<longrightarrow>
        snd (updateDocument s w key content) = Inl e)
   \<and> (k \<noteq> key \<longrightarrow>
        map_get (documents (fst (updateDocument s w key content))) k = map_get (documents s) k)"
proof (intro conjI impI)
  show "failed_document (fst (uploadFile s w file)) (new_id w) message"
    if "snd (uploadFile s w file) = Inl (Error message)"
    using uploadFile_failure [OF that] by (simp add: error_message_def)
  show "failed_document (fst (uploadFile s w file)) (new_id w) (js ''Unknown error'')"
    if "snd (uploadFile s w file) = Inl NonError"
    using uploadFile_failure [OF that] by (simp add: error_message_def)
  show "snd (uploadFile s w file) = Inl e" if "extractContent w file = Inl e"
    using that by (rule uploadFile_extraction_fails)
  show "snd (uploadFile s w file) = Inl e"
    if "extractContent w file = Inr content
        \<and> fst (indexDocument (aiService s) (indexing w)
                 \<lparr>req_id = new_id w, req_title = file_name file, req_content = content,
                  req_fileType = getFileType file\<rparr>) = Some e"
    using that uploadFile_indexing_fails by blast
  show "map_get (documents (fst (uploadFile s w file))) k = map_get (documents s) k"
    if "k \<noteq> new_id w"
    using that by (rule uploadFile_others)
  show "failed_document (fst (updateDocument s w key content)) key message"
    if "map_get (documents s) key = Some d0
        \<and> snd (updateDocument s w key content) = Inl (Error message)"
    using that updateDocument_failure [of s key d0 w content "Error message"]
    by (simp add: error_message_def)
  show "failed_document (fst (updateDocument s w key content)) key (js ''Unknown error'')"
    if "map_get (documents s) key = Some d0
        \<and> snd (updateDocument s w key content) = Inl NonError"
    using that updateDocument_failure [of s key d0 w content NonError]
    by (simp add: error_message_def)
  show "snd (updateDocument s w key content) = Inl e"
    if "map_get (documents s) key = Some d0
        \<and> fst (indexDocument (removeDocument (aiService s) key) (indexing w)
                 \<lparr>req_id = doc_id d0, req_title = doc_title d0, req_content = content,
                  req_fileType = doc_fileType d0\<rparr>) = Some e"
    using that updateDocument_indexing_fails by blast
  show "map_get (documents (fst (updateDocument s w key content))) k = map_get (documents s) k"
    if "k \<noteq> key"
    using that by (rule updateDocument_others)
qed

text \<open>
  An upload whose file cannot be read (the message \<open>unreadable\<close> of the thrown \<open>Error\<close> is
  recorded); an upload whose file is read and whose indexing fails; an update whose
  indexing fails, both with a value that is no \<open>Error\<close> (\<open>Unknown error\<close> is recorded).
  The other document is untouched each time.
\<close>

theorem failure_recorded_witness:
  "extractContent example_world example_file = Inl (Error (js ''unreadable''))
   \<and> snd (uploadFile example_services example_world example_file) = Inl (Error (js ''unreadable''))
   \<and> failed_document (fst (uploadFile example_services example_world example_file)) (js ''u1'')
        (js ''unreadable'')
   \<and> map_get (documents (fst (uploadFile example_services example_world example_file))) (js ''d1'')
        = Some example_document
   \<and> extractContent example_world_readable example_file = Inr (js ''Hi.'')
   \<and> snd (uploadFile example_services example_world_readable example_file) = Inl NonError
   \<and> failed_document (fst (uploadFile example_services example_world_readable example_file)) (js ''u1'')
        (js ''Unknown error'')
   \<and> map_get (documents example_services) (js ''d1'') = Some example_document
   \<and> snd (updateDocument example_services example_world (js ''d1'') (js ''New.'')) = Inl NonError
   \<and> failed_document (fst (updateDocument example_services example_world (js ''d1'') (js ''New.'')))
        (js ''d1'') (js ''Unknown error'')
   \<and> map_get (documents (fst (updateDocument example_services example_world (js ''d1'') (js ''New.''))))
        (js ''u1'') = None"
  using failure_recorded [of example_services example_world example_file "js ''unreadable''"
      "Error (js ''unreadable'')" "[]" "js ''d1''" "js ''d1''" example_document]
    failure_recorded [of example_services example_world_readable example_file "[]" NonError
      "js ''Hi.''" "js ''d1''" "js ''d1''" example_document]
    failure_recorded [of example_services example_world example_file "[]" NonError
      "js ''New.''" "js ''u1''" "js ''d1''" example_document]
    ex_extract ex_extract_readable ex_index_upload ex_index_update
  by (simp add: example_world_def example_world_readable_def example_services_def map_get_def js_def)

text \<open>
  Claim C9, as the code has it. For an identifier of no document, \<open>updateDocument\<close> fails
  with the error \<open>Document not found\<close> and changes nothing; \<open>deleteDocument\<close> returns
  without an error and leaves the documents as they are; listing and searching on no
  data give the empty result.
\<close>

theorem unknown_identifier:
  assumes "map_get (documents s) key = None"
  shows "updateDocument s w key content = (s, Inl (Error (js ''Document not found'')))
         \<and> snd (deleteDocument s key) = Inr ()
         \<and> documents (fst (deleteDocument s key)) = documents s
         \<and> (documents s = [] \<longrightarrow> getAllDocuments s = [] \<and> searchByTitle s query = [])
         \<and> (vectorStore (aiService s) = [] \<longrightarrow>
              searchDocuments (aiService s) remote now query topK = [])"
  using assms updateDocument_not_found deleteDocument_returns deleteDocument_absent
    getAllDocuments_empty searchByTitle_empty searchDocuments_empty
  by simp

text \<open>An identifier of no document, and the services with no data.\<close>

theorem unknown_identifier_witness:
  "map_get (documents example_services) (js ''zz'') = None
   \<and> updateDocument example_services example_world (js ''zz'') (js ''New.'')
       = (example_services, Inl (Error (js ''Document not found'')))
   \<and> documents (fst (deleteDocument example_services (js ''zz''))) = documents example_services
   \<and> documents empty_services = [] \<and> vectorStore (aiService empty_services) = []
   \<and> getAllDocuments empty_services = [] \<and> searchByTitle empty_services (js ''g'') = []
   \<and> searchDocuments (aiService empty_services) None 7 (js ''g'') 5 = []"
  using unknown_identifier [of example_services "js ''zz''" example_world "js ''New.''"]
    unknown_identifier [of empty_services "js ''zz''" example_world "js ''New.''" "js ''g''" None 7 5]
  by (simp add: example_services_def empty_services_def map_get_def js_def)

text \<open>
  Claim C9 as stated fails for \<open>deleteDocument\<close>: on an unknown identifier it returns, it
  does not report \<open>not found\<close>.
\<close>

theorem deleteDocument_unknown_identifier:
  "map_get (documents example_services) (js ''zz'') = None
   \<and> snd (deleteDocument example_services (js ''zz'')) = Inr ()
   \<and> snd (deleteDocument example_services (js ''zz'')) \<noteq> Inl (Error (js ''Document not found''))"
  by (simp add: deleteDocument_def example_services_def map_get_def js_def)

section \<open>Cosine similarity\<close>

subsection \<open>Accumulated rounding\<close>

lemma power_upper:
  fixes u :: real
  assumes "0 \<le> u" and "real m * u \<le> 1 / 2"
  shows "(1 + u) ^ m \<le> 1 + 2 * real m * u"
  using assms(2)
proof (induction m)
  case 0
  then show ?case by simp
next
  case (Suc m)
  have mu: "real m * u \<le> 1 / 2" using Suc.prems assms(1) by (simp add: algebra_simps)
  have "(1 + u) ^ Suc m = (1 + u) * (1 + u) ^ m" by simp
  also have "\<dots> \<le> (1 + u) * (1 + 2 * real m * u)"
    using Suc.IH [OF mu] assms(1) by (intro mult_left_mono) simp_all
  also have "\<dots> = 1 + 2 * real m * u + u + (2 * (real m * u)) * u" by (simp add: algebra_simps)
  also have "\<dots> \<le> 1 + 2 * real m * u + u + 1 * u"
    using mu assms(1) by (intro add_left_mono mult_right_mono) simp_all
  also have "\<dots> = 1 + 2 * real (Suc m) * u" by (simp add: algebra_simps)
  finally show ?case .
qed

lemma power_lower:
  fixes u :: real
  assumes "0 \<le> u" and "u \<le> 1"
  shows "1 - real m * u \<le> (1 - u) ^ m"
  using Bernoulli_inequality [of "- u" m] assms by simp

lemma rne_relative_or_zero:
  assumes "x = 0 \<or> min_normal \<le> \<bar>x\<bar>"
  shows "\<bar>rne x - x\<bar> \<le> unit_roundoff * \<bar>x\<bar>"
  using assms rne_relative by (auto simp: rne_zero)

lemma rne_between:
  assumes "x = 0 \<or> min_normal \<le> x" and "0 \<le> x"
  shows "(1 - unit_roundoff) * x \<le> rne x" and "rne x \<le> (1 + unit_roundoff) * x"
proof -
  have "\<bar>rne x - x\<bar> \<le> unit_roundoff * \<bar>x\<bar>"
    using assms by (intro rne_relative_or_zero) auto
  then have "\<bar>rne x - x\<bar> \<le> unit_roundoff * x" using assms(2) by simp
  then show "(1 - unit_roundoff) * x \<le> rne x" and "rne x \<le> (1 + unit_roundoff) * x"
    by (simp_all add: algebra_simps abs_le_iff)
qed

text \<open>A step of a sum of squares.\<close>

lemma norm_step:
  fixes u :: real
  assumes u: "0 \<le> u" "u \<le> 1"
    and g: "0 \<le> g" "g \<le> 1" and G: "1 \<le> G"
    and A: "0 \<le> A" and t: "0 \<le> t"
    and na: "g * A \<le> na" "na \<le> G * A"
    and q: "(1 - u) * t \<le> q" "q \<le> (1 + u) * t"
    and r: "(1 - u) * (na + q) \<le> r" "r \<le> (1 + u) * (na + q)"
  shows "g * (1 - u)\<^sup>2 * (A + t) \<le> r" and "r \<le> G * (1 + u)\<^sup>2 * (A + t)"
proof -
  have "(1 - u) * A \<le> A"
    using mult_right_mono [of "1 - u" 1 A] u A by simp
  then have "g * ((1 - u) * A) \<le> g * A"
    using g by (intro mult_left_mono) simp_all
  moreover have "g * ((1 - u) * t) \<le> (1 - u) * t"
    using mult_right_mono [of g 1 "(1 - u) * t"] u g t by simp
  ultimately have "g * (1 - u) * (A + t) \<le> na + q"
    using na(1) q(1) by (simp add: algebra_simps)
  then have "(1 - u) * (g * (1 - u) * (A + t)) \<le> (1 - u) * (na + q)"
    using u by (intro mult_left_mono) simp_all
  then show "g * (1 - u)\<^sup>2 * (A + t) \<le> r"
    using r(1) by (simp add: power2_eq_square algebra_simps)
  have "A \<le> (1 + u) * A"
    using mult_right_mono [of 1 "1 + u" A] u A by simp
  then have "G * A \<le> G * ((1 + u) * A)"
    using G by (intro mult_left_mono) simp_all
  moreover have "(1 + u) * t \<le> G * ((1 + u) * t)"
    using mult_right_mono [of 1 G "(1 + u) * t"] u G t by simp
  ultimately have "na + q \<le> G * (1 + u) * (A + t)"
    using na(2) q(2) by (simp add: algebra_simps)
  then have "(1 + u) * (na + q) \<le> (1 + u) * (G * (1 + u) * (A + t))"
    using u by (intro mult_left_mono) simp_all
  then show "r \<le> G * (1 + u)\<^sup>2 * (A + t)"
    using r(2) by (simp add: power2_eq_square algebra_simps)
qed


text \<open>A step of a sum of products.\<close>

lemma dot_step:
  fixes u :: real
  assumes u: "0 \<le> u" and G: "1 \<le> G" and S: "0 \<le> S" and e: "0 \<le> e" and k: "0 \<le> k"
    and d: "\<bar>d - D\<bar> \<le> (G - 1) * S + k * e * G"
    and p: "\<bar>p - t\<bar> \<le> u * \<bar>t\<bar>"
    and r: "\<bar>r - (d + p)\<bar> \<le> u * \<bar>d + p\<bar> + e"
    and DS: "\<bar>D\<bar> \<le> S"
  shows "\<bar>r - (D + t)\<bar> \<le> (G * (1 + u)\<^sup>2 - 1) * (S + \<bar>t\<bar>) + (k + 1) * e * (G * (1 + u)\<^sup>2)"
proof -
  define E where "E = (G - 1) * S + k * e * G"
  define T where "T = \<bar>t\<bar>"
  have T: "0 \<le> T" by (simp add: T_def)
  have z: "\<bar>d + p\<bar> \<le> (S + T) + E + u * T"
    using d p DS unfolding E_def T_def by linarith
  have "u * \<bar>d + p\<bar> \<le> u * ((S + T) + E + u * T)"
    using z u by (rule mult_left_mono)
  moreover have "\<bar>r - (D + t)\<bar> \<le> u * \<bar>d + p\<bar> + e + E + u * T"
    using r d p unfolding E_def T_def by linarith
  ultimately have 1: "\<bar>r - (D + t)\<bar> \<le> u * ((S + T) + E + u * T) + e + E + u * T"
    by linarith
  have G2: "1 \<le> G * (1 + u)\<^sup>2"
  proof -
    have "1 \<le> (1 + u)\<^sup>2" using u by (simp add: power2_eq_square algebra_simps)
    then have "1 * 1 \<le> G * (1 + u)\<^sup>2" using G by (intro mult_mono) simp_all
    then show ?thesis by simp
  qed
  have "(G * (1 + u)\<^sup>2 - 1) * (S + T) + (k + 1) * e * (G * (1 + u)\<^sup>2)
        - (u * ((S + T) + E + u * T) + e + E + u * T)
      = (G * (1 + u) * u) * S + ((G - 1) * (1 + u)\<^sup>2) * T
          + e * (k * (G * (1 + u) * u) + (G * (1 + u)\<^sup>2 - 1))"
    unfolding E_def by (simp add: power2_eq_square algebra_simps)
  moreover have "0 \<le> (G * (1 + u) * u) * S"
    using u G S by simp
  moreover have "0 \<le> ((G - 1) * (1 + u)\<^sup>2) * T"
    using u G T by simp
  moreover have "0 \<le> e * (k * (G * (1 + u) * u) + (G * (1 + u)\<^sup>2 - 1))"
    using u G e k G2 by simp
  ultimately have "u * ((S + T) + E + u * T) + e + E + u * T
      \<le> (G * (1 + u)\<^sup>2 - 1) * (S + T) + (k + 1) * e * (G * (1 + u)\<^sup>2)"
    by linarith
  with 1 show ?thesis unfolding T_def by linarith
qed

subsection \<open>The loop and the quotient\<close>

lemma range_constants:
  "0 < component_floor" "component_floor * component_floor = norm_floor"
  "0 < norm_floor" "norm_floor \<le> 1"
  "min_normal \<le> norm_floor / 2" "min_normal \<le> component_floor / 2"
  "0 \<le> norm_ceiling" "2 * norm_ceiling + 2 \<le> overflow_bound / 2"
  "real max_length * min_spacing \<le> norm_floor / 2 ^ 54"
  "min_spacing \<le> 1 / 2 ^ 60"
  by (simp_all add: component_floor_def norm_floor_def norm_ceiling_def max_length_def
      min_normal_def min_spacing_def overflow_bound_def)

lemma growth:
  assumes "m \<le> 2 * max_length + 3"
  shows "(1 + unit_roundoff) ^ m \<le> 1 + 1 / 2 ^ 30" and "1 - 1 / 2 ^ 30 \<le> (1 - unit_roundoff) ^ m"
    and "1 \<le> (1 + unit_roundoff) ^ m" and "(1 - unit_roundoff) ^ m \<le> 1"
    and "0 \<le> (1 - unit_roundoff) ^ m"
proof -
  have m: "real m \<le> 2 ^ 22" using assms by (simp add: max_length_def)
  have u: "0 \<le> unit_roundoff" "unit_roundoff \<le> 1" "unit_roundoff = 1 / 2 ^ 53"
    by (simp_all add: unit_roundoff_def)
  have mu: "real m * unit_roundoff \<le> 1 / 2 ^ 31"
    using m by (simp add: u(3))
  then have "real m * unit_roundoff \<le> 1 / 2" by simp
  from power_upper [OF u(1) this] mu show "(1 + unit_roundoff) ^ m \<le> 1 + 1 / 2 ^ 30" by simp
  from power_lower [OF u(1,2), of m] mu show "1 - 1 / 2 ^ 30 \<le> (1 - unit_roundoff) ^ m" by simp
  show "1 \<le> (1 + unit_roundoff) ^ m" using u(1) by (simp add: one_le_power)
  show "(1 - unit_roundoff) ^ m \<le> 1" using u by (simp add: power_le_one)
  show "0 \<le> (1 - unit_roundoff) ^ m" using u by simp
qed

lemma squares_in_range:
  assumes "x = 0 \<or> component_floor \<le> \<bar>x\<bar>" and "y = 0 \<or> component_floor \<le> \<bar>y\<bar>"
  shows "x * y = 0 \<or> norm_floor \<le> \<bar>x * y\<bar>"
proof (cases "x = 0 \<or> y = 0")
  case True
  then show ?thesis by auto
next
  case False
  then have "component_floor \<le> \<bar>x\<bar>" and "component_floor \<le> \<bar>y\<bar>" using assms by auto
  then have "component_floor * component_floor \<le> \<bar>x\<bar> * \<bar>y\<bar>"
    using range_constants(1) by (intro mult_mono) simp_all
  then show ?thesis by (simp add: range_constants(2) abs_mult)
qed

lemma norm_inv_step:
  assumes inv: "norm_inv k na A" and k: "k < max_length"
    and x: "x = 0 \<or> component_floor \<le> \<bar>x\<bar>" and M: "A + x * x \<le> norm_ceiling"
  shows "num_add (Fin na) (fl (x * x)) = Fin (rne (na + rne (x * x)))"
    and "norm_inv (Suc k) (rne (na + rne (x * x))) (A + x * x)"
proof -
  let ?u = "unit_roundoff"
  define t where "t = x * x"
  define q where "q = rne t"
  define z where "z = na + q"
  define g where "g = (1 - ?u) ^ (2 * k)"
  define G where "G = (1 + ?u) ^ (2 * k)"
  have u: "0 \<le> ?u" "?u \<le> 1" "?u \<le> 1 / 2" using unit_roundoff_bounds by simp_all
  have k2: "2 * k \<le> 2 * max_length + 3" using k by simp
  have g: "0 \<le> g" "g \<le> 1" "1 / 2 \<le> g"
    using growth(2,4,5) [OF k2] unfolding g_def by simp_all
  have G: "1 \<le> G" "G \<le> 2"
    using growth(1,3) [OF k2] unfolding G_def by simp_all
  have A: "0 \<le> A" "A = 0 \<or> norm_floor \<le> A" and na: "g * A \<le> na" "na \<le> G * A"
    using inv unfolding norm_inv_def g_def G_def by simp_all
  have t0: "0 \<le> t" unfolding t_def by simp
  have tr: "t = 0 \<or> norm_floor \<le> t"
    using squares_in_range [OF x x] by (simp add: t_def)
  then have tn: "t = 0 \<or> min_normal \<le> t"
    using range_constants(3,5) by auto
  have q: "(1 - ?u) * t \<le> q" "q \<le> (1 + ?u) * t"
    unfolding q_def using rne_between [OF tn t0] by simp_all
  have tM: "t \<le> norm_ceiling" using M A(1) by (simp add: t_def)
  then have "\<bar>t\<bar> \<le> overflow_bound / 2" using t0 range_constants(8) by simp
  then have ft: "fl t = Fin q" unfolding q_def by (rule fl_finite)
  have "(1 - ?u) * t \<ge> (1 / 2) * t" using u(3) t0 by (intro mult_right_mono) simp_all
  moreover have "g * A \<ge> (1 / 2) * A" using g(3) A(1) by (intro mult_right_mono) simp_all
  ultimately have zlow: "(A + t) / 2 \<le> z" using na(1) q(1) by (simp add: z_def)
  have "(1 + ?u) * t \<le> 2 * t" using u(2) t0 by (intro mult_right_mono) simp_all
  moreover have "G * A \<le> 2 * A" using G(2) A(1) by (intro mult_right_mono) simp_all
  ultimately have zhigh: "z \<le> 2 * (A + t)" using na(2) q(2) by (simp add: z_def)
  have z0: "0 \<le> z" using zlow A(1) t0 by simp
  have "z \<le> 2 * norm_ceiling" using zhigh M by (simp add: t_def)
  then have "\<bar>z\<bar> \<le> overflow_bound / 2" using z0 range_constants(8) by simp
  then have fz: "fl z = Fin (rne z)" by (rule fl_finite)
  have A': "A + t = 0 \<or> norm_floor \<le> A + t" using A tr t0 by auto
  have zn: "z = 0 \<or> min_normal \<le> z"
  proof (cases "A + t = 0")
    case True
    then have "A = 0" and "t = 0" using A(1) t0 by simp_all
    then have "na = 0" and "q = 0" using na by (simp_all add: q_def rne_zero)
    then show ?thesis by (simp add: z_def)
  next
    case False
    then have "norm_floor \<le> A + t" using A' by simp
    then show ?thesis using zlow range_constants(5) by simp
  qed
  have r: "(1 - ?u) * z \<le> rne z" "rne z \<le> (1 + ?u) * z"
    using rne_between [OF zn z0] by simp_all
  have step: "g * (1 - ?u)\<^sup>2 * (A + t) \<le> rne z" "rne z \<le> G * (1 + ?u)\<^sup>2 * (A + t)"
    using norm_step [OF u(1,2) g(1,2) G(1) A(1) t0 na q, of "rne z"] r unfolding z_def by simp_all
  show "num_add (Fin na) (fl (x * x)) = Fin (rne (na + rne (x * x)))"
    using ft fz by (simp add: t_def q_def z_def)
  have "norm_inv (Suc k) (rne z) (A + t)"
    unfolding norm_inv_def using step A(1) t0 A'
    by (simp add: g_def G_def power2_eq_square algebra_simps)
  then show "norm_inv (Suc k) (rne (na + rne (x * x))) (A + x * x)"
    by (simp add: t_def q_def z_def)
qed

lemma dot_inv_step:
  assumes inv: "dot_inv k d D S" and k: "k < max_length"
    and x: "x = 0 \<or> component_floor \<le> \<bar>x\<bar>" and y: "y = 0 \<or> component_floor \<le> \<bar>y\<bar>"
    and M: "S + \<bar>x * y\<bar> \<le> norm_ceiling"
  shows "num_add (Fin d) (fl (x * y)) = Fin (rne (d + rne (x * y)))"
    and "dot_inv (Suc k) (rne (d + rne (x * y))) (D + x * y) (S + \<bar>x * y\<bar>)"
proof -
  let ?u = "unit_roundoff" and ?e = "min_spacing / 2"
  define t where "t = x * y"
  define p where "p = rne t"
  define z where "z = d + p"
  define G where "G = (1 + ?u) ^ (2 * k)"
  have u: "0 \<le> ?u" "?u \<le> 1" using unit_roundoff_bounds by simp_all
  have e: "0 \<le> ?e" using min_spacing_bounds by simp
  have k2: "2 * k \<le> 2 * max_length + 3" using k by simp
  have G: "1 \<le> G" "G \<le> 2"
    using growth(1,3) [OF k2] unfolding G_def by simp_all
  have DS: "\<bar>D\<bar> \<le> S" and d: "\<bar>d - D\<bar> \<le> (G - 1) * S + real k * ?e * G"
    using inv unfolding dot_inv_def G_def by simp_all
  have S: "0 \<le> S" using DS by linarith
  have "t = 0 \<or> norm_floor \<le> \<bar>t\<bar>" using squares_in_range [OF x y] by (simp add: t_def)
  then have tn: "t = 0 \<or> min_normal \<le> \<bar>t\<bar>" using range_constants(3,5) by auto
  have p: "\<bar>p - t\<bar> \<le> ?u * \<bar>t\<bar>" unfolding p_def using tn by (rule rne_relative_or_zero)
  have tM: "\<bar>t\<bar> \<le> norm_ceiling" using M S by (simp add: t_def)
  then have "\<bar>t\<bar> \<le> overflow_bound / 2" using range_constants(8) by simp
  then have ft: "fl t = Fin p" unfolding p_def by (rule fl_finite)
  have "real k * min_spacing \<le> real max_length * min_spacing"
    using k min_spacing_bounds(1) by (intro mult_right_mono) simp_all
  then have km: "real k * min_spacing \<le> 1"
    using range_constants(3,4,9) by (simp add: field_simps)
  have "real k * ?e * G \<le> real k * ?e * 2"
    using G(2) e by (intro mult_left_mono) simp_all
  then have keG: "real k * ?e * G \<le> 1" using km by simp
  have "(G - 1) * S \<le> 1 * S" using G(2) S by (intro mult_right_mono) simp_all
  then have dabs: "\<bar>d\<bar> \<le> 2 * S + 1" using d DS keG by linarith
  have "?u * \<bar>t\<bar> \<le> 1 * \<bar>t\<bar>" using u(2) by (intro mult_right_mono) simp_all
  then have pabs: "\<bar>p\<bar> \<le> 2 * \<bar>t\<bar>" using p by linarith
  have "\<bar>z\<bar> \<le> \<bar>d\<bar> + \<bar>p\<bar>" unfolding z_def by (rule abs_triangle_ineq)
  then have "\<bar>z\<bar> \<le> 2 * S + 2 * \<bar>t\<bar> + 1" using dabs pabs by linarith
  then have "\<bar>z\<bar> \<le> 2 * norm_ceiling + 2" using M unfolding t_def by linarith
  then have "\<bar>z\<bar> \<le> overflow_bound / 2" using range_constants(8) by linarith
  then have fz: "fl z = Fin (rne z)" by (rule fl_finite)
  have r: "\<bar>rne z - (d + p)\<bar> \<le> ?u * \<bar>d + p\<bar> + ?e"
    using rne_general [of z] by (simp add: z_def)
  have k0: "0 \<le> real k" by simp
  have step: "\<bar>rne z - (D + t)\<bar>
      \<le> (G * (1 + ?u)\<^sup>2 - 1) * (S + \<bar>t\<bar>) + (real k + 1) * ?e * (G * (1 + ?u)\<^sup>2)"
    using u(1) G(1) S e k0 d p r DS by (rule dot_step)
  show "num_add (Fin d) (fl (x * y)) = Fin (rne (d + rne (x * y)))"
    using ft fz by (simp add: t_def p_def z_def)
  have G': "(1 + ?u) ^ (2 * Suc k) = G * (1 + ?u)\<^sup>2"
    by (simp add: G_def power2_eq_square)
  have "\<bar>D + t\<bar> \<le> S + \<bar>t\<bar>" using DS by linarith
  then have "dot_inv (Suc k) (rne z) (D + t) (S + \<bar>t\<bar>)"
    unfolding dot_inv_def G' using step by (simp add: add.commute)
  then show "dot_inv (Suc k) (rne (d + rne (x * y))) (D + x * y) (S + \<bar>x * y\<bar>)"
    by (simp add: t_def p_def z_def)
qed

lemma norm_sq_nonneg: "0 \<le> norm_sq a"
  by (induction a) (simp_all add: norm_sq_def)

lemma norm_sq_Cons: "norm_sq (x # a) = x * x + norm_sq a"
  by (simp add: norm_sq_def)

lemma dot_Cons: "dot (x # a) (y # b) = x * y + dot a b"
  by (simp add: dot_def)

lemma norm_sq_pos: "list_ex (\<lambda>x. x \<noteq> 0) a \<Longrightarrow> 0 < norm_sq a"
proof (induction a)
  case Nil
  then show ?case by simp
next
  case (Cons x a)
  show ?case
  proof (cases "x = 0")
    case True
    with Cons show ?thesis by (simp add: norm_sq_Cons)
  next
    case False
    then have "0 < x * x" by (auto simp: zero_less_mult_iff)
    moreover have "0 \<le> norm_sq a" by (rule norm_sq_nonneg)
    ultimately show ?thesis by (simp add: norm_sq_Cons)
  qed
qed

lemma cauchy_step:
  fixes d na nb x y :: real
  assumes "d\<^sup>2 \<le> na * nb" and "0 \<le> na" and "0 \<le> nb"
  shows "(d + x * y)\<^sup>2 \<le> (na + x * x) * (nb + y * y)"
proof -
  have "(2 * d * x * y)\<^sup>2 = 4 * d\<^sup>2 * (x\<^sup>2 * y\<^sup>2)"
    by (simp add: power2_eq_square)
  also have "\<dots> \<le> 4 * (na * nb) * (x\<^sup>2 * y\<^sup>2)"
    using assms(1) by (intro mult_right_mono mult_left_mono) simp_all
  also have "\<dots> = 4 * (na * y\<^sup>2) * (nb * x\<^sup>2)"
    by simp
  also have "\<dots> \<le> (na * y\<^sup>2 + nb * x\<^sup>2)\<^sup>2"
    using sum_squares_bound [of "na * y\<^sup>2" "nb * x\<^sup>2"] arith_geo_mean_sqrt
    by (simp add: power2_eq_square algebra_simps)
  finally have "\<bar>2 * d * x * y\<bar> \<le> \<bar>na * y\<^sup>2 + nb * x\<^sup>2\<bar>"
    by (simp add: abs_le_square_iff)
  moreover have "0 \<le> na * y\<^sup>2 + nb * x\<^sup>2"
    using assms(2,3) by simp
  ultimately have "2 * d * x * y \<le> na * y\<^sup>2 + nb * x\<^sup>2"
    by linarith
  then have "d\<^sup>2 + 2 * d * x * y + x\<^sup>2 * y\<^sup>2 \<le> na * nb + na * y\<^sup>2 + nb * x\<^sup>2 + x\<^sup>2 * y\<^sup>2"
    using assms(1) by linarith
  then show ?thesis
    by (simp add: power2_eq_square algebra_simps)
qed

lemma norm_sq_abs: "norm_sq (map abs a) = norm_sq a"
  by (induction a) (simp_all add: norm_sq_def)

lemma dot_abs_nonneg: "0 \<le> dot (map abs a) (map abs b)"
proof (induction a arbitrary: b)
  case Nil
  then show ?case by (simp add: dot_def)
next
  case (Cons x a)
  then show ?case by (cases b) (simp_all add: dot_def)
qed

lemma dot_abs_bound: "\<bar>dot a b\<bar> \<le> dot (map abs a) (map abs b)"
proof (induction a arbitrary: b)
  case Nil
  then show ?case by (simp add: dot_def)
next
  case (Cons x a)
  show ?case
  proof (cases b)
    case Nil
    then show ?thesis by (simp add: dot_def)
  next
    case (Cons y b')
    have "\<bar>x * y + dot a b'\<bar> \<le> \<bar>x * y\<bar> + \<bar>dot a b'\<bar>" by (rule abs_triangle_ineq)
    then show ?thesis using Cons.IH [of b'] Cons by (simp add: dot_Cons abs_mult)
  qed
qed

lemma cauchy_schwarz:
  assumes "length a = length b"
  shows "(dot a b)\<^sup>2 \<le> norm_sq a * norm_sq b"
  using assms
proof (induction a b rule: list_induct2)
  case Nil
  then show ?case by (simp add: dot_def norm_sq_def)
next
  case (Cons x a y b)
  have "(dot a b + x * y)\<^sup>2 \<le> (norm_sq a + x * x) * (norm_sq b + y * y)"
    using Cons.IH norm_sq_nonneg norm_sq_nonneg by (rule cauchy_step)
  then show ?case by (simp add: dot_Cons norm_sq_Cons add.commute)
qed

lemma dot_abs_le_norms:
  assumes "length a = length b"
  shows "dot (map abs a) (map abs b) \<le> sqrt (norm_sq a) * sqrt (norm_sq b)"
proof -
  have "(dot (map abs a) (map abs b))\<^sup>2 \<le> norm_sq (map abs a) * norm_sq (map abs b)"
    using assms by (intro cauchy_schwarz) simp
  then have "(dot (map abs a) (map abs b))\<^sup>2 \<le> norm_sq a * norm_sq b"
    by (simp add: norm_sq_abs)
  then have "dot (map abs a) (map abs b) \<le> sqrt (norm_sq a * norm_sq b)"
    by (rule real_le_rsqrt)
  then show ?thesis by (simp add: real_sqrt_mult)
qed

lemma cosine_loop_rounded:
  assumes "length a = length b"
    and "list_all (\<lambda>x. x = 0 \<or> component_floor \<le> \<bar>x\<bar>) a"
    and "list_all (\<lambda>x. x = 0 \<or> component_floor \<le> \<bar>x\<bar>) b"
    and "k + length a \<le> max_length"
    and "norm_inv k na A" and "norm_inv k nb B" and "dot_inv k d D S"
    and "A + norm_sq a \<le> norm_ceiling" and "B + norm_sq b \<le> norm_ceiling"
    and "S + dot (map abs a) (map abs b) \<le> norm_ceiling"
  shows "\<exists>d' na' nb'.
           cosine_loop a b (Fin d, Fin na, Fin nb) = (Fin d', Fin na', Fin nb')
           \<and> norm_inv (k + length a) na' (A + norm_sq a)
           \<and> norm_inv (k + length a) nb' (B + norm_sq b)
           \<and> dot_inv (k + length a) d' (D + dot a b) (S + dot (map abs a) (map abs b))"
  using assms
proof (induction a b arbitrary: k d na nb D S A B rule: list_induct2)
  case Nil
  then show ?case by (simp add: dot_def norm_sq_def)
next
  case (Cons x a y b)
  have x: "x = 0 \<or> component_floor \<le> \<bar>x\<bar>" and y: "y = 0 \<or> component_floor \<le> \<bar>y\<bar>"
    using Cons.prems(1,2) by simp_all
  have k: "k < max_length" using Cons.prems(3) by simp
  have na: "0 \<le> norm_sq a" and nb: "0 \<le> norm_sq b" by (rule norm_sq_nonneg)+
  have ab: "0 \<le> dot (map abs a) (map abs b)" by (rule dot_abs_nonneg)
  have MA: "A + x * x \<le> norm_ceiling" using Cons.prems(7) na by (simp add: norm_sq_Cons)
  have MB: "B + y * y \<le> norm_ceiling" using Cons.prems(8) nb by (simp add: norm_sq_Cons)
  have MS: "S + \<bar>x * y\<bar> \<le> norm_ceiling" using Cons.prems(9) ab by (simp add: dot_Cons abs_mult)
  let ?d = "rne (d + rne (x * y))" and ?na = "rne (na + rne (x * x))" and ?nb = "rne (nb + rne (y * y))"
  have step: "cosine_loop (x # a) (y # b) (Fin d, Fin na, Fin nb) = cosine_loop a b (Fin ?d, Fin ?na, Fin ?nb)"
    using norm_inv_step(1) [OF Cons.prems(4) k x MA] norm_inv_step(1) [OF Cons.prems(5) k y MB]
      dot_inv_step(1) [OF Cons.prems(6) k x y MS]
    by (simp only: cosine_loop.simps)
  have "\<exists>d' na' nb'.
           cosine_loop a b (Fin ?d, Fin ?na, Fin ?nb) = (Fin d', Fin na', Fin nb')
           \<and> norm_inv (Suc k + length a) na' (A + x * x + norm_sq a)
           \<and> norm_inv (Suc k + length a) nb' (B + y * y + norm_sq b)
           \<and> dot_inv (Suc k + length a) d' (D + x * y + dot a b) (S + \<bar>x * y\<bar> + dot (map abs a) (map abs b))"
  proof (rule Cons.IH)
    show "list_all (\<lambda>x. x = 0 \<or> component_floor \<le> \<bar>x\<bar>) a" using Cons.prems(1) by simp
    show "list_all (\<lambda>x. x = 0 \<or> component_floor \<le> \<bar>x\<bar>) b" using Cons.prems(2) by simp
    show "Suc k + length a \<le> max_length" using Cons.prems(3) by simp
    show "norm_inv (Suc k) ?na (A + x * x)" using Cons.prems(4) k x MA by (rule norm_inv_step(2))
    show "norm_inv (Suc k) ?nb (B + y * y)" using Cons.prems(5) k y MB by (rule norm_inv_step(2))
    show "dot_inv (Suc k) ?d (D + x * y) (S + \<bar>x * y\<bar>)" using Cons.prems(6) k x y MS by (rule dot_inv_step(2))
    show "A + x * x + norm_sq a \<le> norm_ceiling" using Cons.prems(7) by (simp add: norm_sq_Cons add.assoc)
    show "B + y * y + norm_sq b \<le> norm_ceiling" using Cons.prems(8) by (simp add: norm_sq_Cons add.assoc)
    show "S + \<bar>x * y\<bar> + dot (map abs a) (map abs b) \<le> norm_ceiling"
      using Cons.prems(9) by (simp add: dot_Cons abs_mult add.assoc)
  qed
  then show ?case
    unfolding step by (simp add: dot_Cons norm_sq_Cons abs_mult add.assoc)
qed

lemma sqrt_le_succ:
  fixes A :: real
  assumes "0 \<le> A"
  shows "sqrt A \<le> A + 1"
proof (rule real_le_lsqrt)
  show "0 \<le> A + 1" using assms by simp
  have "0 \<le> A * A + A" using assms by simp
  then show "A \<le> (A + 1)\<^sup>2" by (simp add: power2_eq_square algebra_simps)
qed

lemma sqrt_stage:
  assumes inv: "norm_inv n na A" and n: "n \<le> max_length" and A0: "0 < A" and M: "A \<le> norm_ceiling"
  shows "Math_sqrt (Fin na) = Fin (rne (sqrt na))"
    and "(1 - unit_roundoff) ^ Suc n * sqrt A \<le> rne (sqrt na)"
    and "rne (sqrt na) \<le> (1 + unit_roundoff) ^ Suc n * sqrt A"
    and "component_floor \<le> sqrt A"
proof -
  let ?u = "unit_roundoff"
  define g where "g = (1 - ?u) ^ n"
  define G where "G = (1 + ?u) ^ n"
  have u: "0 \<le> ?u" "?u \<le> 1" using unit_roundoff_bounds by simp_all
  have n2: "n \<le> 2 * max_length + 3" using n by simp
  have g: "0 \<le> g" "1 / 2 \<le> g" using growth(2,5) [OF n2] unfolding g_def by simp_all
  have G: "1 \<le> G" "G \<le> 2" using growth(1,3) [OF n2] unfolding G_def by simp_all
  have A: "norm_floor \<le> A" and na: "g\<^sup>2 * A \<le> na" "na \<le> G\<^sup>2 * A"
    using inv A0 unfolding norm_inv_def g_def G_def by (simp_all add: power_mult power2_eq_square mult.commute)
  have sA: "0 \<le> sqrt A" "(sqrt A)\<^sup>2 = A" using A0 by simp_all
  have "component_floor\<^sup>2 \<le> A" using A range_constants(2) by (simp add: power2_eq_square)
  then show cA: "component_floor \<le> sqrt A" by (rule real_le_rsqrt)
  have na0: "0 \<le> na"
  proof -
    have "0 \<le> g\<^sup>2 * A" using A0 by simp
    then show ?thesis using na(1) by linarith
  qed
  have low: "g * sqrt A \<le> sqrt na"
    by (rule real_le_rsqrt) (simp add: power_mult_distrib sA na(1))
  have high: "sqrt na \<le> G * sqrt A"
  proof (rule real_le_lsqrt)
    show "0 \<le> G * sqrt A" using G(1) sA(1) by simp
    show "na \<le> (G * sqrt A)\<^sup>2" by (simp add: power_mult_distrib sA na(2))
  qed
  have s0: "0 \<le> sqrt na" using na0 by simp
  have "(1 / 2) * component_floor \<le> g * sqrt A"
    using g(2) cA range_constants(1) by (intro mult_mono) simp_all
  then have sn: "min_normal \<le> sqrt na" using low range_constants(6) by linarith
  have "G * sqrt A \<le> 2 * (A + 1)"
    using G sqrt_le_succ [of A] A0 sA(1) by (intro mult_mono) simp_all
  then have "G * sqrt A \<le> 2 * A + 2" by simp
  then have "sqrt na \<le> 2 * norm_ceiling + 2" using high M by linarith
  then have "\<bar>sqrt na\<bar> \<le> overflow_bound / 2" using s0 range_constants(8) by linarith
  then have "fl (sqrt na) = Fin (rne (sqrt na))" by (rule fl_finite)
  then show "Math_sqrt (Fin na) = Fin (rne (sqrt na))" using na0 by simp
  have r: "(1 - ?u) * sqrt na \<le> rne (sqrt na)" "rne (sqrt na) \<le> (1 + ?u) * sqrt na"
    using rne_between [of "sqrt na"] sn s0 by simp_all
  have "(1 - ?u) * (g * sqrt A) \<le> (1 - ?u) * sqrt na"
    using low u by (intro mult_left_mono) simp_all
  then show "(1 - ?u) ^ Suc n * sqrt A \<le> rne (sqrt na)"
    using r(1) by (simp add: g_def mult.assoc)
  have "(1 + ?u) * sqrt na \<le> (1 + ?u) * (G * sqrt A)"
    using high u by (intro mult_left_mono) simp_all
  then show "rne (sqrt na) \<le> (1 + ?u) ^ Suc n * sqrt A"
    using r(2) by (simp add: G_def mult.assoc)
qed

lemma quotient_error:
  fixes R :: real
  assumes R: "0 < R" and den: "\<bar>den - R\<bar> \<le> c * R" and d: "\<bar>d - D\<bar> \<le> c' * R"
    and D: "\<bar>D\<bar> \<le> R" and c: "0 \<le> c" "c \<le> 1 / 2" and c': "0 \<le> c'"
  shows "\<bar>d / den - D / R\<bar> \<le> 2 * (c' + c)"
proof -
  have "c * R \<le> (1 / 2) * R" using c(2) R by (intro mult_right_mono) simp_all
  then have dl: "R / 2 \<le> den" using den by linarith
  then have den0: "0 < den" using R by linarith
  have eq: "d / den - D / R = ((d - D) * R - D * (den - R)) / (den * R)"
    using R den0 by (simp add: field_simps)
  have "\<bar>(d - D) * R - D * (den - R)\<bar> \<le> \<bar>(d - D) * R\<bar> + \<bar>D * (den - R)\<bar>"
    by (rule abs_triangle_ineq4)
  also have "\<dots> = \<bar>d - D\<bar> * R + \<bar>D\<bar> * \<bar>den - R\<bar>" using R by (simp add: abs_mult)
  also have "\<dots> \<le> (c' * R) * R + R * (c * R)"
    using d D den R c(1) by (intro add_mono mult_mono) simp_all
  also have "\<dots> = (c' + c) * (R * R)" by (simp add: algebra_simps)
  finally have num: "\<bar>(d - D) * R - D * (den - R)\<bar> \<le> (c' + c) * (R * R)" .
  have "(R / 2) * R \<le> den * R" using dl R by (intro mult_right_mono) simp_all
  then have dR: "R * R / 2 \<le> den * R" by simp
  have RR: "0 < R * R" using R by simp
  have "\<bar>d / den - D / R\<bar> = \<bar>(d - D) * R - D * (den - R)\<bar> / (den * R)"
    unfolding eq using R den0 by (simp add: abs_mult)
  also have "\<dots> \<le> ((c' + c) * (R * R)) / (den * R)"
    using num R den0 by (intro divide_right_mono) simp_all
  also have "\<dots> \<le> ((c' + c) * (R * R)) / (R * R / 2)"
    using dR RR c(1) c' by (intro divide_left_mono) simp_all
  also have "\<dots> = 2 * (c' + c)" using R by simp
  finally show ?thesis .
qed

lemma sqrt_product_le:
  fixes A B M :: real
  assumes "0 \<le> A" and "A \<le> M" and "0 \<le> B" and "B \<le> M"
  shows "sqrt A * sqrt B \<le> M"
proof -
  have "sqrt A \<le> sqrt M" and "sqrt B \<le> sqrt M" using assms by simp_all
  then have "sqrt A * sqrt B \<le> sqrt M * sqrt M"
    using assms by (intro mult_mono) simp_all
  also have "\<dots> = M" using assms by simp
  finally show ?thesis .
qed

lemma cosine_finish:
  assumes n: "n \<le> max_length"
    and ia: "norm_inv n na A" and ib: "norm_inv n nb B" and idot: "dot_inv n d D S"
    and A: "0 < A" "A \<le> norm_ceiling" and B: "0 < B" "B \<le> norm_ceiling"
    and S: "S \<le> sqrt A * sqrt B"
  shows "close_to (num_div (Fin d) (num_mul (Math_sqrt (Fin na)) (Math_sqrt (Fin nb))))
           (D / (sqrt A * sqrt B)) (1 / 2 ^ 27)"
proof -
  let ?u = "unit_roundoff"
  define sa where "sa = rne (sqrt na)"
  define sb where "sb = rne (sqrt nb)"
  define R where "R = sqrt A * sqrt B"
  define lo where "lo = (1 - ?u) ^ Suc n"
  define hi where "hi = (1 + ?u) ^ Suc n"
  define L2 where "L2 = (1 - ?u) ^ (Suc n + Suc n)"
  define H2 where "H2 = (1 + ?u) ^ (Suc n + Suc n)"
  define G where "G = (1 + ?u) ^ (2 * n)"
  define t where "t = sa * sb"
  define den where "den = rne t"
  define q where "q = d / den"
  have u: "0 \<le> ?u" "?u \<le> 1" "?u = 1 / 2 ^ 53" using unit_roundoff_bounds by (simp_all add: unit_roundoff_def)
  have m1: "Suc n \<le> 2 * max_length + 3" and m2: "Suc n + Suc n \<le> 2 * max_length + 3"
    and m3: "Suc (Suc n + Suc n) \<le> 2 * max_length + 3" and m0: "2 * n \<le> 2 * max_length + 3"
    using n by simp_all
  have sqa: "Math_sqrt (Fin na) = Fin sa" "lo * sqrt A \<le> sa" "sa \<le> hi * sqrt A" "component_floor \<le> sqrt A"
    unfolding sa_def lo_def hi_def using sqrt_stage [OF ia n A] by simp_all
  have sqb: "Math_sqrt (Fin nb) = Fin sb" "lo * sqrt B \<le> sb" "sb \<le> hi * sqrt B" "component_floor \<le> sqrt B"
    unfolding sb_def lo_def hi_def using sqrt_stage [OF ib n B] by simp_all
  have lo: "0 \<le> lo" unfolding lo_def using growth(5) [OF m1] .
  have hi: "0 \<le> hi" unfolding hi_def using growth(3) [OF m1] by linarith
  have L2: "lo * lo = L2" "1 / 2 \<le> L2" "0 \<le> L2"
    using growth(2,5) [OF m2] unfolding lo_def L2_def by (simp_all add: power_add)
  have H2: "hi * hi = H2" "H2 \<le> 2" "0 \<le> H2"
    using growth(1,3) [OF m2] unfolding hi_def H2_def by (simp_all add: power_add)
  define c where "c = (1::real) / 2 ^ 30"
  define c' where "c' = (1::real) / 2 ^ 54"
  have c: "0 \<le> c" "c \<le> 1 / 2" "0 \<le> c'" by (simp_all add: c_def c'_def)
  have L3: "1 - c \<le> (1 - ?u) * L2"
    using growth(2) [OF m3] unfolding L2_def c_def by simp
  have H3: "(1 + ?u) * H2 \<le> 1 + c"
    using growth(1) [OF m3] unfolding H2_def c_def by simp
  have G: "1 \<le> G" "G \<le> 1 + c" "G \<le> 2"
    using growth(1,3) [OF m0] unfolding G_def c_def by simp_all
  have sA: "0 \<le> sqrt A" and sB: "0 \<le> sqrt B" using A B by simp_all
  have "component_floor * component_floor \<le> sqrt A * sqrt B"
    using sqa(4) sqb(4) range_constants(1) A(1) by (intro mult_mono) simp_all
  then have Rlow: "norm_floor \<le> R" by (simp add: R_def range_constants(2))
  then have R0: "0 < R" using range_constants(3) by linarith
  have RM: "R \<le> norm_ceiling"
    unfolding R_def using A B by (intro sqrt_product_le) simp_all
  have sa0: "0 \<le> sa"
  proof -
    have "0 \<le> lo * sqrt A" using lo sA by simp
    then show ?thesis using sqa(2) by linarith
  qed
  have sb0: "0 \<le> sb"
  proof -
    have "0 \<le> lo * sqrt B" using lo sB by simp
    then show ?thesis using sqb(2) by linarith
  qed
  have e1: "(lo * sqrt A) * (lo * sqrt B) = L2 * R"
    unfolding L2(1) [symmetric] R_def by (simp add: algebra_simps)
  have e2: "(hi * sqrt A) * (hi * sqrt B) = H2 * R"
    unfolding H2(1) [symmetric] R_def by (simp add: algebra_simps)
  have "(lo * sqrt A) * (lo * sqrt B) \<le> sa * sb"
    using sqa(2) sqb(2) sa0 lo sB by (intro mult_mono mult_nonneg_nonneg)
  then have tl: "L2 * R \<le> t"
    unfolding e1 t_def .
  have "sa * sb \<le> (hi * sqrt A) * (hi * sqrt B)"
    using sqa(3) sqb(3) sb0 hi sA by (intro mult_mono mult_nonneg_nonneg)
  then have th: "t \<le> H2 * R"
    unfolding e2 t_def .
  have "(1 / 2) * R \<le> L2 * R" using L2(2) R0 by (intro mult_right_mono) simp_all
  then have t2: "R / 2 \<le> t" using tl by simp
  then have t0: "0 \<le> t" using R0 by linarith
  have tn: "t = 0 \<or> min_normal \<le> t" using t2 Rlow range_constants(5) by simp
  have "H2 * R \<le> 2 * R" using H2(2) R0 by (intro mult_right_mono) simp_all
  then have "t \<le> 2 * norm_ceiling" using th RM by linarith
  then have "\<bar>t\<bar> \<le> overflow_bound / 2" using t0 range_constants(8) by linarith
  then have ft: "fl t = Fin den" unfolding den_def by (rule fl_finite)
  have mul: "num_mul (Math_sqrt (Fin na)) (Math_sqrt (Fin nb)) = Fin den"
    unfolding sqa(1) sqb(1) using ft by (simp add: t_def)
  have r: "(1 - ?u) * t \<le> den" "den \<le> (1 + ?u) * t"
    unfolding den_def using rne_between [OF tn t0] by simp_all
  have "(1 - ?u) * (L2 * R) \<le> (1 - ?u) * t" using tl u by (intro mult_left_mono) simp_all
  moreover have "(1 - c) * R \<le> ((1 - ?u) * L2) * R"
    using L3 R0 by (intro mult_right_mono) simp_all
  ultimately have "(1 - c) * R \<le> den" using r(1) by (simp add: mult.assoc)
  then have dl: "R - c * R \<le> den" by (simp add: algebra_simps)
  have "(1 + ?u) * t \<le> (1 + ?u) * (H2 * R)" using th u by (intro mult_left_mono) simp_all
  moreover have "((1 + ?u) * H2) * R \<le> (1 + c) * R"
    using H3 R0 by (intro mult_right_mono) simp_all
  ultimately have "den \<le> (1 + c) * R" using r(2) by (simp add: mult.assoc)
  then have dh: "den \<le> R + c * R" by (simp add: algebra_simps)
  have den: "\<bar>den - R\<bar> \<le> c * R" using dl dh by linarith
  have "c * R \<le> (1 / 2) * R" using c(2) R0 by (intro mult_right_mono) simp_all
  then have den0: "0 < den" using dl R0 by linarith
  have DS: "\<bar>D\<bar> \<le> S" and dd: "\<bar>d - D\<bar> \<le> (G - 1) * S + real n * (min_spacing / 2) * G"
    using idot unfolding dot_inv_def G_def by simp_all
  have S0: "0 \<le> S" using DS by linarith
  have SR: "S \<le> R" using S by (simp add: R_def)
  have DR: "\<bar>D\<bar> \<le> R" using DS SR by linarith
  have g1: "(G - 1) * S \<le> c * R"
    using G(1,2) SR S0 c(1) by (intro mult_mono) simp_all
  have "real n * (min_spacing / 2) * G \<le> real n * (min_spacing / 2) * 2"
    using G(3) min_spacing_bounds(1) by (intro mult_left_mono) simp_all
  then have g2: "real n * (min_spacing / 2) * G \<le> real n * min_spacing" by simp
  have g3: "real n * min_spacing \<le> real max_length * min_spacing"
    using n min_spacing_bounds(1) by (intro mult_right_mono) simp_all
  have "norm_floor / 2 ^ 54 \<le> R / 2 ^ 54" using Rlow by simp
  then have g4: "real max_length * min_spacing \<le> c' * R"
    using range_constants(9) by (simp add: c'_def)
  have "\<bar>d - D\<bar> \<le> c * R + c' * R" using dd g1 g2 g3 g4 by linarith
  then have d: "\<bar>d - D\<bar> \<le> (c + c') * R" by (simp add: algebra_simps)
  have qe: "\<bar>q - D / R\<bar> \<le> 2 * ((c + c') + c)"
    unfolding q_def using R0 den d DR c(1,2) by (rule quotient_error) (simp add: c)
  have DR1: "\<bar>D / R\<bar> \<le> 1" using DR R0 by simp
  have qe': "\<bar>q - D / R\<bar> \<le> 1 / 2 ^ 28 + 1 / 2 ^ 53"
    using qe by (simp add: c_def c'_def)
  then have "\<bar>q - D / R\<bar> \<le> 1" by simp
  then have qabs: "\<bar>q\<bar> \<le> 2" using DR1 by linarith
  then have "\<bar>q\<bar> \<le> overflow_bound / 2" using overflow_bound_ge_4 by linarith
  then have fq: "fl q = Fin (rne q)" by (rule fl_finite)
  have "?u * \<bar>q\<bar> \<le> ?u * 2" using qabs u(1) by (rule mult_left_mono)
  then have "\<bar>rne q - q\<bar> \<le> 1 / 2 ^ 52 + 1 / 2 ^ 61"
    using rne_general [of q] range_constants(10) by (simp add: u(3))
  then have "\<bar>rne q - D / R\<bar> \<le> (1 / 2 ^ 28 + 1 / 2 ^ 53) + (1 / 2 ^ 52 + 1 / 2 ^ 61)"
    using qe' by linarith
  then have "\<bar>rne q - D / R\<bar> \<le> 1 / 2 ^ 27" by simp
  moreover have "num_div (Fin d) (Fin den) = Fin (rne q)"
    using den0 fq by (simp add: q_def)
  ultimately show ?thesis unfolding mul by (simp add: close_to_def R_def)
qed

lemma dot_self: "dot a a = norm_sq a"
  by (induction a) (simp_all add: dot_def norm_sq_def)

lemma cosineSimilarity_rounded:
  assumes len: "length a = length b" and ra: "in_normal_range a" and rb: "in_normal_range b"
  shows "close_to (cosineSimilarity a b) (dot a b / (sqrt (norm_sq a) * sqrt (norm_sq b))) (1 / 2 ^ 27)"
proof -
  let ?A = "norm_sq a" and ?B = "norm_sq b" and ?S = "dot (map abs a) (map abs b)"
  have A: "0 < ?A" "?A \<le> norm_ceiling" and B: "0 < ?B" "?B \<le> norm_ceiling"
    using ra rb by (simp_all add: in_normal_range_def norm_sq_pos)
  have S: "?S \<le> sqrt ?A * sqrt ?B" using len by (rule dot_abs_le_norms)
  have "sqrt ?A * sqrt ?B \<le> norm_ceiling"
    using A B by (intro sqrt_product_le) simp_all
  then have SM: "?S \<le> norm_ceiling" using S by linarith
  have n: "length a \<le> max_length" using ra by (simp add: in_normal_range_def)
  have "\<exists>d' na' nb'.
           cosine_loop a b (Fin 0, Fin 0, Fin 0) = (Fin d', Fin na', Fin nb')
           \<and> norm_inv (0 + length a) na' (0 + ?A)
           \<and> norm_inv (0 + length a) nb' (0 + ?B)
           \<and> dot_inv (0 + length a) d' (0 + dot a b) (0 + ?S)"
  proof (rule cosine_loop_rounded [OF len])
    show "list_all (\<lambda>x. x = 0 \<or> component_floor \<le> \<bar>x\<bar>) a" using ra by (simp add: in_normal_range_def)
    show "list_all (\<lambda>x. x = 0 \<or> component_floor \<le> \<bar>x\<bar>) b" using rb by (simp add: in_normal_range_def)
    show "0 + length a \<le> max_length" using n by simp
    show "norm_inv 0 0 0" and "norm_inv 0 0 0" by (simp_all add: norm_inv_def)
    show "dot_inv 0 0 0 0" by (simp add: dot_inv_def)
    show "0 + ?A \<le> norm_ceiling" using A(2) by simp
    show "0 + ?B \<le> norm_ceiling" using B(2) by simp
    show "0 + ?S \<le> norm_ceiling" using SM by simp
  qed
  then obtain d' na' nb' where loop: "cosine_loop a b (Fin 0, Fin 0, Fin 0) = (Fin d', Fin na', Fin nb')"
    and ia: "norm_inv (length a) na' ?A" and ib: "norm_inv (length a) nb' ?B"
    and idot: "dot_inv (length a) d' (dot a b) ?S"
    by auto
  have "cosineSimilarity a b = num_div (Fin d') (num_mul (Math_sqrt (Fin na')) (Math_sqrt (Fin nb')))"
    using len by (simp add: cosineSimilarity_def loop del: Math_sqrt.simps num_mul.simps num_div.simps)
  then show ?thesis using cosine_finish [OF n ia ib idot A B S] by simp
qed

lemma cosine_exact_bound:
  assumes "length a = length b" and "0 < norm_sq a" and "0 < norm_sq b"
  shows "\<bar>dot a b / (sqrt (norm_sq a) * sqrt (norm_sq b))\<bar> \<le> 1"
proof -
  have "\<bar>dot a b\<bar> \<le> sqrt (norm_sq a) * sqrt (norm_sq b)"
    using dot_abs_bound [of a b] dot_abs_le_norms [OF assms(1)] by linarith
  moreover have "0 < sqrt (norm_sq a) * sqrt (norm_sq b)" using assms(2,3) by simp
  ultimately show ?thesis by simp
qed

lemma close_to_trans:
  assumes "close_to v c tol" and "\<bar>c\<bar> \<le> 1"
  shows "close_to v 0 (1 + tol)"
proof (cases v)
  case (Fin r)
  then have "\<bar>r - c\<bar> \<le> tol" using assms(1) by (simp add: close_to_def)
  then have "\<bar>r\<bar> \<le> 1 + tol" using assms(2) by linarith
  then show ?thesis using Fin by (simp add: close_to_def)
qed (use assms(1) in \<open>simp_all add: close_to_def\<close>)

lemma cosineSimilarity_lengths: "length a \<noteq> length b \<Longrightarrow> cosineSimilarity a b = Fin 0"
  by (simp add: cosineSimilarity_def)

subsection \<open>Two evaluations\<close>

lemma fl_dyadic:
  assumes "2 ^ n \<le> \<bar>x\<bar>" and "\<bar>x\<bar> < 2 ^ Suc n"
    and "\<bar>x * 2 ^ 52 / 2 ^ n - of_int k\<bar> < 1 / 2" and "\<bar>x\<bar> \<le> 1000"
  shows "fl x = Fin (of_int k * 2 ^ n / 2 ^ 52)"
proof -
  have ulp: "ulp x = 2 ^ n / 2 ^ 52" using assms(1,2) by (rule ulp_eq)
  have "\<bar>x / ulp x - of_int k\<bar> < 1 / 2" using assms(3) by (simp add: ulp)
  then have "rne x = of_int k * ulp x" by (rule rne_nearest)
  then have r: "rne x = of_int k * 2 ^ n / 2 ^ 52" by (simp add: ulp)
  have "(1000::real) \<le> overflow_bound / 2" by (simp add: overflow_bound_def)
  then have "\<bar>x\<bar> \<le> overflow_bound / 2" using assms(4) by linarith
  then show ?thesis using r by (simp add: fl_finite)
qed

lemma fl_values:
  "fl 25 = Fin 25" "fl 26 = Fin 26"
proof -
  show "fl 25 = Fin 25" using fl_dyadic [of 4 25 "25 * 2 ^ 48"] by simp
  show "fl 26 = Fin 26" using fl_dyadic [of 4 26 "26 * 2 ^ 48"] by simp
qed

lemma sqrt_26: "fl (sqrt 26) = Fin (5740985595342838 / 2 ^ 50)"
proof -
  have l: "(4::real) \<le> sqrt 26" by (rule real_le_rsqrt) simp
  have h: "sqrt 26 < (8::real)" by (rule real_less_lsqrt) simp_all
  have a: "(5740985595342838 - 1 / 2) / 2 ^ 50 < sqrt (26::real)"
    by (rule real_less_rsqrt) (simp add: power2_eq_square)
  have b: "sqrt (26::real) < (5740985595342838 + 1 / 2) / 2 ^ 50"
    by (rule real_less_lsqrt) (simp_all add: power2_eq_square)
  define s :: real where "s = sqrt 26"
  have a': "5740985595342838 - 1 / 2 < s * 1125899906842624"
    using a by (simp add: s_def field_simps)
  have b': "s * 1125899906842624 < 5740985595342838 + 1 / 2"
    using b by (simp add: s_def field_simps)
  have "s * 2 ^ 52 / 2 ^ 2 = s * 1125899906842624" by simp
  then have "\<bar>s * 2 ^ 52 / 2 ^ 2 - 5740985595342838\<bar> < 1 / 2"
    using a' b' by linarith
  then have "\<bar>sqrt 26 * 2 ^ 52 / 2 ^ 2 - of_int 5740985595342838\<bar> < 1 / 2"
    by (simp add: s_def)
  then have "fl (sqrt 26) = Fin (of_int 5740985595342838 * 2 ^ 2 / 2 ^ 52)"
    using l h by (intro fl_dyadic) simp_all
  then show ?thesis by simp
qed

lemma square_of_sqrt_26:
  "fl (5740985595342838 / 2 ^ 50 * (5740985595342838 / 2 ^ 50)) = Fin (7318349394477055 / 2 ^ 48)"
  using fl_dyadic [of 4 "5740985595342838 / 2 ^ 50 * (5740985595342838 / 2 ^ 50)" 7318349394477055]
  by simp

lemma quotient_26:
  "fl (26 / (7318349394477055 / 2 ^ 48)) = Fin (1 + 1 / 2 ^ 52)"
  using fl_dyadic [of 0 "26 / (7318349394477055 / 2 ^ 48)" "2 ^ 52 + 1"]
  by simp

lemma cosine_loop_1_5:
  "cosine_loop [1, 5] [1, 5] (Fin 0, Fin 0, Fin 0) = (Fin 26, Fin 26, Fin 26)"
  by (simp add: fl_small fl_values)

lemma cosineSimilarity_1_5: "cosineSimilarity [1, 5] [1, 5] = Fin (1 + 1 / 2 ^ 52)"
  unfolding cosineSimilarity_def cosine_loop_1_5
  using sqrt_26 square_of_sqrt_26 quotient_26 by simp

lemma square_overflows: "fl (2 ^ 600 * 2 ^ 600) = PInf"
  by (rule fl_overflow) (simp add: overflow_bound_def)

lemma cosineSimilarity_huge: "cosineSimilarity [2 ^ 600] [2 ^ 600] = NaN"
  using square_overflows by (simp add: cosineSimilarity_def)

text \<open>
  Claim C3, as the code has it. Vectors of different lengths have similarity exactly 0.
  For two vectors of equal length in the normal range, \<open>cosineSimilarity\<close> returns a
  finite number within \<open>2^-27\<close> of the dot product over the product of the norms, so a
  number of magnitude at most \<open>1 + 2^-27\<close>; and such a vector has a similarity within
  \<open>2^-27\<close> of 1 with itself.
\<close>

theorem cosineSimilarity_bounds:
  "(length a \<noteq> length b \<longrightarrow> cosineSimilarity a b = Fin 0)
   \<and> (length a = length b \<and> in_normal_range a \<and> in_normal_range b \<longrightarrow>
        close_to (cosineSimilarity a b) (dot a b / (sqrt (norm_sq a) * sqrt (norm_sq b))) (1 / 2 ^ 27)
        \<and> close_to (cosineSimilarity a b) 0 (1 + 1 / 2 ^ 27))
   \<and> (in_normal_range a \<longrightarrow> close_to (cosineSimilarity a a) 1 (1 / 2 ^ 27))"
proof (intro conjI impI)
  show "cosineSimilarity a b = Fin 0" if "length a \<noteq> length b"
    using that by (rule cosineSimilarity_lengths)
next
  assume h: "length a = length b \<and> in_normal_range a \<and> in_normal_range b"
  then have c: "close_to (cosineSimilarity a b) (dot a b / (sqrt (norm_sq a) * sqrt (norm_sq b))) (1 / 2 ^ 27)"
    by (intro cosineSimilarity_rounded) simp_all
  then show "close_to (cosineSimilarity a b) (dot a b / (sqrt (norm_sq a) * sqrt (norm_sq b))) (1 / 2 ^ 27)" .
  from h have "0 < norm_sq a" and "0 < norm_sq b"
    by (simp_all add: in_normal_range_def norm_sq_pos)
  with h have "\<bar>dot a b / (sqrt (norm_sq a) * sqrt (norm_sq b))\<bar> \<le> 1"
    by (intro cosine_exact_bound) simp_all
  with c show "close_to (cosineSimilarity a b) 0 (1 + 1 / 2 ^ 27)" by (rule close_to_trans)
next
  assume r: "in_normal_range a"
  then have "0 < norm_sq a" by (simp add: in_normal_range_def norm_sq_pos)
  then have e: "dot a a / (sqrt (norm_sq a) * sqrt (norm_sq a)) = 1" by (simp add: dot_self)
  have "close_to (cosineSimilarity a a) (dot a a / (sqrt (norm_sq a) * sqrt (norm_sq a))) (1 / 2 ^ 27)"
    using r by (intro cosineSimilarity_rounded) simp_all
  then show "close_to (cosineSimilarity a a) 1 (1 / 2 ^ 27)"
    unfolding e .
qed

text \<open>The vectors \<open>(3, 4)\<close> and \<open>(4, 3)\<close>: similarity near 24/25; and two lengths that differ.\<close>

theorem cosineSimilarity_bounds_witness:
  "length [3, 4 :: real] = length [4, 3 :: real]
   \<and> in_normal_range [3, 4] \<and> in_normal_range [4, 3]
   \<and> close_to (cosineSimilarity [3, 4] [4, 3]) (24 / 25) (1 / 2 ^ 27)
   \<and> close_to (cosineSimilarity [3, 4] [4, 3]) 0 (1 + 1 / 2 ^ 27)
   \<and> close_to (cosineSimilarity [3, 4] [3, 4]) 1 (1 / 2 ^ 27)
   \<and> length [1 :: real] \<noteq> length [1, 2 :: real]
   \<and> cosineSimilarity [1] [1, 2] = Fin 0"
  using cosineSimilarity_bounds [of "[3, 4]" "[4, 3]"] cosineSimilarity_bounds [of "[3, 4]" "[3, 4]"]
    cosineSimilarity_bounds [of "[1]" "[1, 2]"]
  by (simp add: in_normal_range_def norm_sq_def dot_def component_floor_def norm_ceiling_def max_length_def)

text \<open>
  Claim C3 as stated fails in two ways. The vector \<open>(1, 5)\<close> has with itself the similarity
  \<open>1 + 2^-52\<close>, above 1: the square root of 26 is rounded down, its square is rounded
  below 26, and 26 over that is rounded up. For the vector of the one component \<open>2^600\<close>,
  which is not zero, the three sums are infinite and the quotient of two infinities is
  \<open>NaN\<close>, a value outside every interval.
\<close>

theorem cosineSimilarity_outside_interval:
  "length [1, 5 :: real] = length [1, 5 :: real]
   \<and> cosineSimilarity [1, 5] [1, 5] = Fin (1 + 1 / 2 ^ 52)
   \<and> (1 :: real) < 1 + 1 / 2 ^ 52
   \<and> (2 ^ 600 :: real) \<noteq> 0
   \<and> cosineSimilarity [2 ^ 600] [2 ^ 600] = NaN"
  using cosineSimilarity_1_5 cosineSimilarity_huge by simp

end
